theory Spec2Isabelle
  imports
    Complex_Main
    "HOL-Library.Char_ord"
    "HOL-Library.List_Lexorder"
    "HOL-Library.Product_Lexorder"
    "HOL-Library.Multiset"
    "HOL-Library.AList"
    "HOL-Library.Log_Nat"
begin

section \<open>BMR-Analytics: the analytics engine and the date-range reprojection\<close>

text \<open>
  A shallow embedding of \<^verbatim>\<open>src/components/AnalyticsDashboard.tsx\<close>
  (\<^verbatim>\<open>distributeToTotal\<close>, \<^verbatim>\<open>reprojectForDateRange\<close>) and of
  \<^verbatim>\<open>src/lib/analytic.service.ts\<close> (the aggregators behind
  \<^verbatim>\<open>computeAnalyticsFromDocs\<close>).

  JavaScript numbers are IEEE doubles. Counters (numbers of events, sessions, units handed
  out) are modelled as \<open>int\<close>, every other number as \<open>real\<close>: the model computes
  with exact arithmetic where the program rounds to 53 bits. The exception is
  \<open>distributeToTotal64\<close>, the apportionment with every operation rounded as the
  program rounds it. Strings are \<open>char list\<close>
  under the lexicographic order, which is how JavaScript compares the ASCII date strings
  the program handles. \<open>Array.prototype.sort\<close> is stable, so a sort by a comparator that
  is a difference of keys is \<open>sort_key\<close> (a stable insertion sort) on the negated keys
  when the order is descending.
\<close>

subsection \<open>Small helpers of the dashboard\<close>

datatype js_error = TypeError

text \<open>\<^verbatim>\<open>const clamp = (v, min = 0, max = 1e12) => Math.min(Math.max(v, min), max)\<close>\<close>

definition clamp :: "real \<Rightarrow> real \<Rightarrow> real \<Rightarrow> real" where
  "clamp v lo hi = min (max v lo) hi"

text \<open>\<^verbatim>\<open>Math.round\<close>: the nearest integer, halves rounded up.\<close>

definition js_round :: "real \<Rightarrow> int" where
  "js_round x = \<lfloor>x + 1 / 2\<rfloor>"

text \<open>\<^verbatim>\<open>arr[idx] || 0\<close> on an array of numbers: a missing entry reads as 0.\<close>

definition nth_or0 :: "int list \<Rightarrow> nat \<Rightarrow> int" where
  "nth_or0 xs i = (if i < length xs then xs ! i else 0)"

subsection \<open>Largest-remainder apportionment\<close>

text \<open>
  \<^verbatim>\<open>
  function distributeToTotal(total: number, weights: number[]) {
    const nonneg = weights.map((w) => (w > 0 ? w : 0));
    const sum = nonneg.reduce((a, b) => a + b, 0) || 1;
    const raw = nonneg.map((w) => (w / sum) * total);
    const base = raw.map((x) => Math.floor(x));
    let rem = total - base.reduce((a, b) => a + b, 0);
    const order = raw
      .map((x, i) => ({ i, frac: x - base[i] }))
      .sort((a, b) => b.frac - a.frac);
    const out = base.slice();
    for (let k = 0; k < rem; k += 1) out[order[k % order.length].i] += 1;
    return out;
  }
  \<close>
  With no weights, \<open>order\<close> is empty, \<open>k % 0\<close> is \<open>NaN\<close>, \<open>order[NaN]\<close> is
  \<open>undefined\<close> and reading its \<open>i\<close> throws a \<open>TypeError\<close>: the first turn of the
  loop, taken when \<open>rem > 0\<close>, fails.

  Two embeddings follow. \<open>distributeToTotal\<close> computes the shares \<open>w / sum * total\<close>
  with exact arithmetic; the reprojection is built on it. \<open>distributeToTotal64\<close>, in the
  next subsection, rounds every operation to a double, as the program does. The two can
  hand the units left to different entries: for the total 11 and the weights 15 and 7
  the exact shares are 7.5 and 3.5, the rounded shares 7.499999999999999 and 3.5.
\<close>

definition dt_nonneg :: "real list \<Rightarrow> real list" where
  "dt_nonneg weights = map (\<lambda>w. if w > 0 then w else 0) weights"

definition dt_sum :: "real list \<Rightarrow> real" where
  "dt_sum weights = (let s = sum_list (dt_nonneg weights) in if s = 0 then 1 else s)"

definition dt_raw :: "int \<Rightarrow> real list \<Rightarrow> real list" where
  "dt_raw tot weights = map (\<lambda>w. (w / dt_sum weights) * of_int tot) (dt_nonneg weights)"

definition dt_base :: "int \<Rightarrow> real list \<Rightarrow> int list" where
  "dt_base tot weights = map floor (dt_raw tot weights)"

definition dt_rem :: "int \<Rightarrow> real list \<Rightarrow> int" where
  "dt_rem tot weights = tot - sum_list (dt_base tot weights)"

definition dt_order :: "int \<Rightarrow> real list \<Rightarrow> (nat \<times> real) list" where
  "dt_order tot weights =
     sort_key (\<lambda>(i, frac). - frac)
       (map (\<lambda>i. (i, dt_raw tot weights ! i - of_int (dt_base tot weights ! i)))
            [0..<length (dt_raw tot weights)])"

definition bumpAt :: "nat \<Rightarrow> int list \<Rightarrow> int list" where
  "bumpAt i out = out[i := out ! i + 1]"

definition distributeToTotal :: "int \<Rightarrow> real list \<Rightarrow> js_error + int list" where
  "distributeToTotal tot weights =
     (let order = dt_order tot weights;
          rem = dt_rem tot weights
      in if 0 < rem \<and> order = [] then Inl TypeError
         else Inr (fold (\<lambda>k out. bumpAt (fst (order ! (k mod length order))) out)
                        [0..<nat rem] (dt_base tot weights)))"

subsection \<open>The apportionment in double precision\<close>

text \<open>
  A double is a real number with a significand of 53 binary digits. \<open>expo x\<close> is the
  exponent of a positive \<open>x\<close>, the integer \<open>e\<close> with \<open>2\<^sup>e \<le> x < 2\<^sup>e\<^sup>+\<^sup>1\<close>
  (\<open>bitlen n\<close> is the number of binary digits of \<open>n\<close>), and \<open>fl64 x\<close> is the double
  nearest to \<open>x\<close>, of the two nearest the one with the even significand when \<open>x\<close> is half
  way: the result of an arithmetic operation of the program is \<open>fl64\<close> of the exact
  result. The exponent is not bounded here, so numbers beyond \<open>2\<^sup>1\<^sup>0\<^sup>2\<^sup>4\<close>, which
  overflow, and below \<open>2\<^sup>-\<^sup>1\<^sup>0\<^sup>2\<^sup>2\<close>, which lose digits, are left out, and so are
  \<open>NaN\<close> and the infinities. \<open>u64\<close> bounds the relative error of one rounding.
\<close>

definition expo :: "real \<Rightarrow> int" where
  "expo x = (if 1 \<le> x then bitlen \<lfloor>x\<rfloor> - 1 else - bitlen (\<lceil>1 / x\<rceil> - 1))"

definition roundEven :: "real \<Rightarrow> int" where
  "roundEven m =
     (let f = \<lfloor>m\<rfloor>; r = m - of_int f
      in if r < 1 / 2 then f else if 1 / 2 < r then f + 1 else if even f then f else f + 1)"

definition fl64 :: "real \<Rightarrow> real" where
  "fl64 x =
     (if x = 0 then 0
      else let e = expo \<bar>x\<bar> - 52
           in sgn x * of_int (roundEven (\<bar>x\<bar> / 2 powi e)) * 2 powi e)"

definition u64 :: real where
  "u64 = 1 / 2 ^ 53"

text \<open>
  \<^verbatim>\<open>distributeToTotal\<close> with the roundings of the program: of each addition in
  \<^verbatim>\<open>reduce((a, b) => a + b, 0)\<close>, of \<^verbatim>\<open>w / sum\<close>, of the product with \<^verbatim>\<open>total\<close>, and of
  \<^verbatim>\<open>x - base[i]\<close>. The weights are doubles already. The floors, \<open>rem\<close> and the entries of
  \<open>out\<close> are integers; the program computes with them exactly as long as they stay
  below \<open>2\<^sup>5\<^sup>3\<close>.
\<close>

definition dt64_sum :: "real list \<Rightarrow> real" where
  "dt64_sum weights =
     (let s = fold (\<lambda>b a. fl64 (a + b)) (dt_nonneg weights) 0 in if s = 0 then 1 else s)"

definition dt64_raw :: "int \<Rightarrow> real list \<Rightarrow> real list" where
  "dt64_raw tot weights =
     map (\<lambda>w. fl64 (fl64 (w / dt64_sum weights) * of_int tot)) (dt_nonneg weights)"

definition dt64_base :: "int \<Rightarrow> real list \<Rightarrow> int list" where
  "dt64_base tot weights = map floor (dt64_raw tot weights)"

definition dt64_rem :: "int \<Rightarrow> real list \<Rightarrow> int" where
  "dt64_rem tot weights = tot - sum_list (dt64_base tot weights)"

definition dt64_order :: "int \<Rightarrow> real list \<Rightarrow> (nat \<times> real) list" where
  "dt64_order tot weights =
     sort_key (\<lambda>(i, frac). - frac)
       (map (\<lambda>i. (i, fl64 (dt64_raw tot weights ! i - of_int (dt64_base tot weights ! i))))
            [0..<length (dt64_raw tot weights)])"

definition distributeToTotal64 :: "int \<Rightarrow> real list \<Rightarrow> js_error + int list" where
  "distributeToTotal64 tot weights =
     (let order = dt64_order tot weights;
          rem = dt64_rem tot weights
      in if 0 < rem \<and> order = [] then Inl TypeError
         else Inr (fold (\<lambda>k out. bumpAt (fst (order ! (k mod length order))) out)
                        [0..<nat rem] (dt64_base tot weights)))"

subsection \<open>The response bundle (\<^verbatim>\<open>AnalyticsResponse\<close>)\<close>

text \<open>
  The fields of \<^verbatim>\<open>AnalyticsResponse\<close> keep their names; the fields of the nested
  objects carry a short prefix, since several of them share a name (\<open>item\<close>, \<open>views\<close>,
  \<open>country\<close>, ...). A \<^verbatim>\<open>Record<string, ...>\<close> is an association list in insertion
  order.
\<close>

datatype PriceTier = Low | Mid | High | AllTier

record session_row =
  s_sessionId :: string
  s_visitorId :: string
  s_country :: string
  s_ts :: string
  s_nView :: int
  s_nCartAdd :: int
  s_nCartRemove :: int

record leak_row =
  lr_item :: string
  lr_adds :: int
  lr_removes :: int
  lr_leak :: real

record leak_summary =
  lk_overall :: real
  lk_items :: "leak_row list"

record reco =
  rc_item :: string
  rc_score :: real

record bundle_row =
  fb_items :: "string \<times> string"
  fb_support :: real

record markov_cell =
  pViewToCart :: real
  pCartToCheckout :: real

record markov_meta =
  mm_tLow :: "real option"
  mm_tHigh :: "real option"
  mm_min :: real
  mm_max :: real

record band =
  b_name :: PriceTier
  b_min :: real
  b_max :: real
  b_viewToCart :: real
  b_wishToCart :: real
  b_nView :: int
  b_nWish :: int

record price_bands =
  bands :: "band list"

record price_range_data =
  viewFromPrices :: "real list"
  viewToCartFromPrices :: "real list"
  cartAddPrices :: "real list"
  cartRemovePrices :: "real list"

record cat_row =
  c_category :: string
  c_views :: int
  c_carts :: int
  c_wish :: int
  c_total :: int

record transitions_t =
  t_states :: "string list"
  t_counts :: "int list list"
  t_probs :: "real list list"

record link =
  l_source :: nat
  l_target :: nat
  l_value :: int

record sankey_t =
  sk_nodes :: "string list"
  sk_links :: "link list"

record daily_row =
  d_date :: string
  d_views :: int
  d_carts :: int

record anomaly_t =
  hasThresholds :: bool
  a_lower :: real
  a_upper :: real
  a_outliers :: "string list"

record daily_t =
  series :: "daily_row list"
  anomaly :: anomaly_t

record geo_row =
  g_country :: string
  g_conversionRate :: real

record item_meta =
  m_title :: string
  m_price :: real
  m_category :: string
  m_brand :: string

type_synonym ItemMeta = "(string \<times> item_meta) list"

record AnalyticsResponse =
  sessions :: "session_row list"
  leak :: leak_summary
  recos :: "(string \<times> reco list) list"
  frequentBundles :: "bundle_row list"
  priceMarkov :: "PriceTier \<Rightarrow> markov_cell"
  priceMarkovMeta :: markov_meta
  priceBands :: price_bands
  priceRangeData :: price_range_data
  categoryInteractions :: "cat_row list"
  transitions :: transitions_t
  sankey :: sankey_t
  daily :: daily_t
  geoInsights :: "geo_row list"
  itemMeta :: ItemMeta
  version :: string

subsection \<open>The date-range reprojection (\<^verbatim>\<open>reprojectForDateRange\<close>)\<close>

text \<open>\<^verbatim>\<open>s.ts.split("T")[0]\<close>: the text before the first \<open>T\<close>.\<close>

definition dateOf :: "string \<Rightarrow> string" where
  "dateOf t = takeWhile (\<lambda>c. c \<noteq> CHR ''T'') t"

text \<open>\<^verbatim>\<open>d >= fromDate && d <= toDate\<close>, on strings.\<close>

definition inRange :: "string \<Rightarrow> string \<Rightarrow> string \<Rightarrow> bool" where
  "inRange fromDate toDate d = (fromDate \<le> d \<and> d \<le> toDate)"

definition fiveStates :: "string list" where
  "fiveStates = [''cart_add'', ''cart_remove'', ''view'', ''wishlist_add'', ''wishlist_remove'']"

text \<open>The object returned when no session matches (lines 91 to 129).\<close>

definition emptyShape :: "AnalyticsResponse \<Rightarrow> AnalyticsResponse" where
  "emptyShape data = data
     \<lparr> sessions := [],
       daily := (daily data)\<lparr> series := [] \<rparr>,
       leak := \<lparr> lk_overall = 0, lk_items = [] \<rparr>,
       categoryInteractions := [],
       recos := [],
       frequentBundles := [],
       priceRangeData := \<lparr> viewFromPrices = [], viewToCartFromPrices = [],
                           cartAddPrices = [], cartRemovePrices = [] \<rparr>,
       priceBands := \<lparr> bands = [] \<rparr>,
       transitions := \<lparr> t_states = fiveStates,
                        t_counts = replicate 5 (replicate 5 0),
                        t_probs = replicate 5 (replicate 5 0) \<rparr>,
       sankey := \<lparr> sk_nodes = fiveStates, sk_links = [] \<rparr> \<rparr>"

text \<open>
  \<^verbatim>\<open>const scaledCounts = data.transitions.counts.map((row) =>
    row.map((c) => Math.round(c * ratio)));\<close>
\<close>

definition rp_scaledCounts :: "real \<Rightarrow> int list list \<Rightarrow> int list list" where
  "rp_scaledCounts ratio counts = map (\<lambda>row. map (\<lambda>c. js_round (of_int c * ratio)) row) counts"

text \<open>
  \<^verbatim>\<open>const probs = scaledCounts.map((row) => {
    const sum = row.reduce((a, b) => a + b, 0);
    return sum ? row.map((v) => v / sum) : row.map(() => 0); });\<close>
  The service normalises its own counts with the same expression (lines 685 to 688).

  In JavaScript \<^verbatim>\<open>v / 0\<close> is \<open>NaN\<close> or an infinity, which are no real numbers, so a
  quotient is a \<open>real option\<close>: \<open>None\<close> when the divisor is 0. \<open>rowQuotients\<close> is the
  expression of the code with these quotients, and \<open>normalizeRow\<close> reads the numbers out
  of it; \<open>the None\<close> is no number one can compute with, so nothing is known of
  \<open>normalizeRow\<close> where a division by 0 happens.
\<close>

definition js_divide :: "real \<Rightarrow> real \<Rightarrow> real option" where
  "js_divide v d = (if d = 0 then None else Some (v / d))"

definition rowQuotients :: "int list \<Rightarrow> real option list" where
  "rowQuotients row =
     (let sum = sum_list row
      in if sum \<noteq> 0 then map (\<lambda>v. js_divide (of_int v) (of_int sum)) row
         else map (\<lambda>_. Some 0) row)"

definition normalizeRow :: "int list \<Rightarrow> real list" where
  "normalizeRow row = map the (rowQuotients row)"

definition rowProbs :: "int list list \<Rightarrow> real list list" where
  "rowProbs counts = map normalizeRow counts"

text \<open>
  \<^verbatim>\<open>for (let i = 0; i < scaledCounts.length; i += 1)
    for (let j = 0; j < scaledCounts[i].length; j += 1) {
      const v = scaledCounts[i][j];
      if (v > 0 && i !== j) links.push({ source: i, target: j, value: v });
    }\<close>
\<close>

definition rp_links :: "int list list \<Rightarrow> link list" where
  "rp_links scaledCounts =
     concat (map (\<lambda>i. concat (map (\<lambda>j. let v = scaledCounts ! i ! j
                                         in if v > 0 \<and> i \<noteq> j
                                            then [\<lparr> l_source = i, l_target = j, l_value = v \<rparr>]
                                            else [])
                                  [0..<length (scaledCounts ! i)]))
                 [0..<length scaledCounts])"

text \<open>The leak rows, from the apportioned adds and removes (lines 174 to 185).\<close>

definition rp_leakItems :: "leak_row list \<Rightarrow> int list \<Rightarrow> int list \<Rightarrow> leak_row list" where
  "rp_leakItems rows addsAlloc remsAlloc =
     sort_key (\<lambda>r. (- lr_leak r, - lr_removes r))
       (map (\<lambda>idx. let r = rows ! idx;
                       adds = nth_or0 addsAlloc idx;
                       removes = nth_or0 remsAlloc idx
                   in \<lparr> lr_item = lr_item r, lr_adds = adds, lr_removes = removes,
                        lr_leak = (if adds > 0 then of_int removes / of_int adds else 0) \<rparr>)
            [0..<length rows])"

text \<open>The category rows (lines 196 to 203).\<close>

definition rp_categoryInteractions :: "real \<Rightarrow> cat_row list \<Rightarrow> int list \<Rightarrow> cat_row list" where
  "rp_categoryInteractions ratio cats cartsAlloc =
     sort_key (\<lambda>c. - c_total c)
       (map (\<lambda>idx. let c = cats ! idx;
                       views = js_round (of_int (c_views c) * ratio);
                       wish = js_round (of_int (c_wish c) * ratio);
                       carts = nth_or0 cartsAlloc idx
                   in c\<lparr> c_views := views, c_wish := wish, c_carts := carts,
                         c_total := views + wish + carts \<rparr>)
            [0..<length cats])"

text \<open>\<^verbatim>\<open>const scaleArray = (arr) => arr.slice(0, Math.round(arr.length * ratio));\<close>\<close>

definition scaleArray :: "real \<Rightarrow> real list \<Rightarrow> real list" where
  "scaleArray ratio arr = take (nat (js_round (real (length arr) * ratio))) arr"

definition rp_priceRangeData :: "real \<Rightarrow> price_range_data \<Rightarrow> price_range_data" where
  "rp_priceRangeData ratio prd =
     \<lparr> viewFromPrices = scaleArray ratio (viewFromPrices prd),
       viewToCartFromPrices = scaleArray ratio (viewToCartFromPrices prd),
       cartAddPrices = scaleArray ratio (cartAddPrices prd),
       cartRemovePrices = scaleArray ratio (cartRemovePrices prd) \<rparr>"

definition rp_priceBands :: "real \<Rightarrow> price_bands \<Rightarrow> price_bands" where
  "rp_priceBands ratio pb =
     \<lparr> bands = map (\<lambda>b. b\<lparr> b_nView := js_round (of_int (b_nView b) * ratio),
                           b_nWish := js_round (of_int (b_nWish b) * ratio) \<rparr>) (bands pb) \<rparr>"

definition rp_frequentBundles :: "real \<Rightarrow> bundle_row list \<Rightarrow> bundle_row list" where
  "rp_frequentBundles ratio bs = map (\<lambda>b. b\<lparr> fb_support := fb_support b * ratio \<rparr>) bs"

text \<open>
  The sessions of the range: \<^verbatim>\<open>data.sessions.filter((s) => { const d = s.ts.split("T")[0];
  return d >= fromDate && d <= toDate; })\<close>.
\<close>

definition rp_sessions :: "AnalyticsResponse \<Rightarrow> string \<Rightarrow> string \<Rightarrow> session_row list" where
  "rp_sessions data fromDate toDate =
     filter (\<lambda>s. inRange fromDate toDate (dateOf (s_ts s))) (sessions data)"

definition rp_ratio :: "AnalyticsResponse \<Rightarrow> session_row list \<Rightarrow> real" where
  "rp_ratio data ss = clamp (real (length ss) / real (length (sessions data))) 0 1"

text \<open>
  The function itself. The three calls of \<open>distributeToTotal\<close> are the only places where it
  can throw, and they run in the order of the source: adds, removes, category carts.
\<close>

definition reprojectForDateRange ::
    "AnalyticsResponse \<Rightarrow> string \<Rightarrow> string \<Rightarrow> js_error + AnalyticsResponse" where
  "reprojectForDateRange data fromDate toDate =
     (let ss = rp_sessions data fromDate toDate
      in if length ss = 0 then Inr (emptyShape data)
         else
           let ratio = rp_ratio data ss;
               daily' = (daily data)\<lparr> series :=
                          filter (\<lambda>r. inRange fromDate toDate (d_date r)) (series (daily data)) \<rparr>;
               totalAdds = sum_list (map s_nCartAdd ss);
               totalRemoves = sum_list (map s_nCartRemove ss);
               scaledCounts = rp_scaledCounts ratio (t_counts (transitions data));
               probs = rowProbs scaledCounts;
               links = rp_links scaledCounts;
               transitions' = \<lparr> t_states = t_states (transitions data),
                                t_counts = scaledCounts, t_probs = probs \<rparr>;
               sankey' = \<lparr> sk_nodes = sk_nodes (sankey data), sk_links = links \<rparr>;
               origAdds = map (\<lambda>r. real_of_int (lr_adds r)) (lk_items (leak data));
               origRems = map (\<lambda>r. real_of_int (lr_removes r)) (lk_items (leak data))
           in case distributeToTotal totalAdds origAdds of
                Inl e \<Rightarrow> Inl e
              | Inr addsAlloc \<Rightarrow>
                  (case distributeToTotal totalRemoves origRems of
                     Inl e \<Rightarrow> Inl e
                   | Inr remsAlloc \<Rightarrow>
                       (let leak' = \<lparr> lk_overall = (if totalAdds > 0
                                                     then of_int totalRemoves / of_int totalAdds
                                                     else 0),
                                      lk_items = rp_leakItems (lk_items (leak data)) addsAlloc remsAlloc \<rparr>;
                            catCarts = map (\<lambda>c. real_of_int (c_carts c)) (categoryInteractions data)
                        in case distributeToTotal totalAdds catCarts of
                             Inl e \<Rightarrow> Inl e
                           | Inr cartsAlloc \<Rightarrow>
                               Inr (data
                                 \<lparr> sessions := ss,
                                   daily := daily',
                                   leak := leak',
                                   categoryInteractions :=
                                     rp_categoryInteractions ratio (categoryInteractions data) cartsAlloc,
                                   priceRangeData := rp_priceRangeData ratio (priceRangeData data),
                                   priceBands := rp_priceBands ratio (priceBands data),
                                   transitions := transitions',
                                   sankey := sankey',
                                   recos := recos data,
                                   frequentBundles :=
                                     rp_frequentBundles ratio (frequentBundles data) \<rparr>))))"

subsection \<open>The service: documents and sessions\<close>

text \<open>
  The service reads untyped documents through \<^verbatim>\<open>strId\<close>, \<^verbatim>\<open>parseDate\<close> and
  \<^verbatim>\<open>safeGet\<close>. A document is modelled by what these readers return for its fields:
  an identifier is a \<open>string option\<close> (\<open>None\<close> for \<open>null\<close>), a timestamp a
  \<open>jsdate option\<close> (\<open>None\<close> where \<^verbatim>\<open>parseDate\<close> gives \<open>null\<close>). A valid \<^verbatim>\<open>Date\<close> is
  its epoch milliseconds together with the two strings the program prints it as:
  \<^verbatim>\<open>toISOString()\<close> and date-fns' \<^verbatim>\<open>format(d, "yyyy-MM-dd")\<close> (local time).
  \<^verbatim>\<open>new Date()\<close> and \<^verbatim>\<open>randomUUID()\<close> are inputs of the document they are used for.
  A \<^verbatim>\<open>Map\<close> is an association list in insertion order: \<^verbatim>\<open>get\<close> is \<open>map_of\<close>,
  \<^verbatim>\<open>set\<close> is \<open>AList.update\<close> (a known key keeps its place).
\<close>

record jsdate =
  millis :: int
  isoString :: string
  localDay :: string

record SessionEvent =
  ev_itemId :: string
  ev_ts :: jsdate
  ev_add :: "int option"
  ev_remove :: "int option"

record Session =
  se_sessionId :: string
  se_visitorId :: string
  se_country :: string
  se_ts :: jsdate
  se_nView :: int
  se_nCartAdd :: int
  se_nCartRemove :: int
  se_uniqueItems :: "string list"
  se_views :: "SessionEvent list"
  se_carts :: "SessionEvent list"
  se_wish :: "SessionEvent list"

record raw_view =
  rv_item :: "string option"
  rv_time :: "jsdate option"

record raw_cart =
  ci_item :: "string option"
  ci_createdAt :: "jsdate option"
  ci_deleted :: bool
  ci_updatedAt :: "jsdate option"

record raw_doc =
  doc_id :: "string option"
  doc_uuid :: string
  doc_visitorId :: string
  doc_country :: "string option"
  doc_createdAt :: "jsdate option"
  doc_now :: jsdate
  viewItems :: "raw_view list"
  cartItems :: "raw_cart list"
  wishlistItems :: "raw_cart list"

text \<open>\<^verbatim>\<open>x ?? d\<close>\<close>

definition orElse :: "'a option \<Rightarrow> 'a \<Rightarrow> 'a" where
  "orElse x d = (case x of None \<Rightarrow> d | Some v \<Rightarrow> v)"

text \<open>\<^verbatim>\<open>new Set([...])\<close>, then \<^verbatim>\<open>Array.from\<close>: the distinct elements by first occurrence.\<close>

definition uniqueList :: "'a list \<Rightarrow> 'a list" where
  "uniqueList xs = fold (\<lambda>x acc. if x \<in> set acc then acc else acc @ [x]) xs []"

text \<open>The loop over \<^verbatim>\<open>doc.viewItems\<close> (lines 309 to 314).\<close>

definition viewEvents :: "jsdate \<Rightarrow> raw_view list \<Rightarrow> SessionEvent list" where
  "viewEvents ts raws =
     concat (map (\<lambda>raw. case rv_item raw of
                           None \<Rightarrow> []
                         | Some ident \<Rightarrow>
                             if ident = [] then []
                             else [\<lparr> ev_itemId = ident, ev_ts = orElse (rv_time raw) ts,
                                     ev_add = None, ev_remove = None \<rparr>]) raws)"

text \<open>
  The loops over \<^verbatim>\<open>doc.cartItems\<close> and \<^verbatim>\<open>doc.wishlistItems\<close> (lines 316 to 338):
  an add, and for a deleted item a remove at its update time.
\<close>

definition cartEvents :: "jsdate \<Rightarrow> raw_cart list \<Rightarrow> SessionEvent list" where
  "cartEvents ts raws =
     concat (map (\<lambda>raw. case ci_item raw of
                           None \<Rightarrow> []
                         | Some ident \<Rightarrow>
                             if ident = [] then []
                             else
                               let time = orElse (ci_createdAt raw) ts
                               in \<lparr> ev_itemId = ident, ev_ts = time,
                                    ev_add = Some 1, ev_remove = Some 0 \<rparr>
                                  # (if ci_deleted raw
                                     then [\<lparr> ev_itemId = ident,
                                             ev_ts = orElse (ci_updatedAt raw) time,
                                             ev_add = Some 0, ev_remove = Some 1 \<rparr>]
                                     else [])) raws)"

definition collectSessionEvents :: "raw_doc \<Rightarrow> Session" where
  "collectSessionEvents doc =
     (let sessionId = orElse (doc_id doc) (doc_uuid doc);
          visitorId = doc_visitorId doc;
          country = (let c = orElse (doc_country doc) ''Unknown''
                     in if c = [] then ''Unknown'' else c);
          ts = orElse (doc_createdAt doc) (doc_now doc);
          views = viewEvents ts (viewItems doc);
          carts = cartEvents ts (cartItems doc);
          wish = cartEvents ts (wishlistItems doc)
      in \<lparr> se_sessionId = sessionId,
           se_visitorId = visitorId,
           se_country = country,
           se_ts = ts,
           se_nView = int (length views),
           se_nCartAdd = sum_list (map (\<lambda>evt. orElse (ev_add evt) 0) carts),
           se_nCartRemove = sum_list (map (\<lambda>evt. orElse (ev_remove evt) 0) carts),
           se_uniqueItems = uniqueList (map ev_itemId views @ map ev_itemId carts
                                          @ map ev_itemId wish),
           se_views = views,
           se_carts = carts,
           se_wish = wish \<rparr>)"

subsection \<open>The service: item metadata\<close>

record raw_category =
  cat_id :: "string option"
  cat_name :: string

record raw_listing =
  li_id :: "string option"
  li_title :: string
  li_price :: "real option"
  li_categoryId :: "string option"
  li_type :: "string option"
  li_brand :: "string option"

text \<open>
  \<open>cat_id\<close> is \<^verbatim>\<open>strId(cat?._id) ?? strId(cat?.id)\<close> and \<open>cat_name\<close> is
  \<^verbatim>\<open>(cat?.name ?? "").toString().trim()\<close>.
\<close>

definition buildCategoryMap :: "raw_category list \<Rightarrow> (string \<times> string) list" where
  "buildCategoryMap categories =
     fold (\<lambda>cat m. case cat_id cat of
                      None \<Rightarrow> m
                    | Some ident \<Rightarrow> if ident \<noteq> [] \<and> cat_name cat \<noteq> []
                                   then AList.update ident (cat_name cat) m else m)
          categories []"

text \<open>\<^verbatim>\<open>String.prototype.trim\<close>, on the ASCII white space.\<close>

definition isSpace :: "char \<Rightarrow> bool" where
  "isSpace c = (c \<in> set [CHR '' '', CHR 0x09, CHR 0x0A, CHR 0x0B, CHR 0x0C, CHR 0x0D])"

definition js_trim :: "string \<Rightarrow> string" where
  "js_trim t = rev (dropWhile isSpace (rev (dropWhile isSpace t)))"

text \<open>
  Of a listing, \<open>li_title\<close> is the title the chain of line 254 picks, \<open>li_price\<close> the price
  after the coercions of lines 260 to 269 (\<open>None\<close> when it is not finite), \<open>li_categoryId\<close>
  the \<open>categoryId\<close> of line 275, \<open>li_type\<close> and \<open>li_brand\<close> what \<^verbatim>\<open>safeGet\<close> reads at
  \<^verbatim>\<open>prodTechInfo.type\<close> and \<^verbatim>\<open>productInfo.brand.0.value\<close>.
\<close>

definition buildItemMeta :: "raw_listing list \<Rightarrow> (string \<times> string) list \<Rightarrow> ItemMeta" where
  "buildItemMeta listings categoryMap =
     fold (\<lambda>listing meta.
             case li_id listing of
               None \<Rightarrow> meta
             | Some ident \<Rightarrow>
                 if ident = [] then meta
                 else
                   let category0 = (case li_categoryId listing of
                                      None \<Rightarrow> None
                                    | Some cid \<Rightarrow> if cid = [] then None else map_of categoryMap cid);
                       category1 = (if category0 = None \<or> category0 = Some []
                                    then (case li_type listing of
                                            Some t \<Rightarrow> t
                                          | None \<Rightarrow> orElse (li_brand listing) ''Other'')
                                    else orElse category0 []);
                       category2 = js_trim (if category1 = [] then ''Other'' else category1);
                       category = (if category2 = [] then ''Other'' else category2)
                   in AList.update ident
                        \<lparr> m_title = li_title listing,
                          m_price = orElse (li_price listing) 0,
                          m_category = category,
                          m_brand = orElse (li_brand listing) [] \<rparr> meta)
          listings []"

text \<open>\<^verbatim>\<open>itemMeta[id]?.price ?? 0\<close> and \<^verbatim>\<open>itemMeta[id]?.category ?? "Other"\<close>\<close>

definition priceOf :: "ItemMeta \<Rightarrow> string \<Rightarrow> real" where
  "priceOf meta ident = (case map_of meta ident of None \<Rightarrow> 0 | Some m \<Rightarrow> m_price m)"

definition categoryOf :: "ItemMeta \<Rightarrow> string \<Rightarrow> string" where
  "categoryOf meta ident = (case map_of meta ident of None \<Rightarrow> ''Other'' | Some m \<Rightarrow> m_category m)"

subsection \<open>The service: cart leak (\<^verbatim>\<open>leakAnalytics\<close>)\<close>

text \<open>\<^verbatim>\<open>function clampValue(value, min, max) { return Math.min(Math.max(value, min), max); }\<close>\<close>

definition clampValue :: "real \<Rightarrow> real \<Rightarrow> real \<Rightarrow> real" where
  "clampValue v lo hi = min (max v lo) hi"

text \<open>\<^verbatim>\<open>m.set(key, (m.get(key) ?? 0) + n)\<close>\<close>

definition bumpBy :: "'k \<Rightarrow> int \<Rightarrow> ('k \<times> int) list \<Rightarrow> ('k \<times> int) list" where
  "bumpBy k n m = AList.update k (orElse (map_of m k) 0 + n) m"

record leak_state =
  ls_adds :: "(string \<times> int) list"
  ls_removes :: "(string \<times> int) list"
  tAdds :: int
  tRem :: int

text \<open>The body of the loop over the cart events (lines 377 to 389).\<close>

definition leakStep :: "SessionEvent \<Rightarrow> leak_state \<Rightarrow> leak_state" where
  "leakStep evt st =
     (let key = ev_itemId evt;
          add = orElse (ev_add evt) 0;
          rem = orElse (ev_remove evt) 0;
          st1 = (if add \<noteq> 0
                 then st\<lparr> ls_adds := bumpBy key add (ls_adds st), tAdds := tAdds st + add \<rparr>
                 else st)
      in if rem \<noteq> 0
         then st1\<lparr> ls_removes := bumpBy key rem (ls_removes st1), tRem := tRem st1 + rem \<rparr>
         else st1)"

definition leakLoop :: "Session list \<Rightarrow> leak_state" where
  "leakLoop ss =
     fold leakStep (concat (map se_carts ss))
       \<lparr> ls_adds = [], ls_removes = [], tAdds = 0, tRem = 0 \<rparr>"

definition leakRow :: "leak_state \<Rightarrow> string \<Rightarrow> leak_row" where
  "leakRow st key =
     (let a = orElse (map_of (ls_adds st) key) 0;
          r = orElse (map_of (ls_removes st) key) 0
      in \<lparr> lr_item = key, lr_adds = a, lr_removes = r,
           lr_leak = (if a > 0 then clampValue (of_int r / of_int a) 0 1 else 0) \<rparr>)"

definition leakAnalytics :: "Session list \<Rightarrow> ItemMeta \<Rightarrow> leak_summary" where
  "leakAnalytics ss meta =
     (let st = leakLoop ss;
          keys = uniqueList (map fst (ls_adds st) @ map fst (ls_removes st));
          rows = sort_key (\<lambda>r. (- lr_leak r, - lr_removes r)) (map (leakRow st) keys)
      in \<lparr> lk_overall = (if tAdds st > 0
                          then clampValue (of_int (tRem st) / of_int (tAdds st)) 0 1 else 0),
           lk_items = rows \<rparr>)"

subsection \<open>The service: recommendations (\<^verbatim>\<open>cooccurrenceRecos\<close>)\<close>

text \<open>
  \<^verbatim>\<open>const key = a < b ? `${a}|${b}` : `${b}|${a}`;\<close> and, reading a key back,
  \<^verbatim>\<open>const [a, b] = key.split("|");\<close> (the first two parts).
\<close>

definition pairKey :: "string \<Rightarrow> string \<Rightarrow> string" where
  "pairKey a b = (if a < b then a @ ''|'' @ b else b @ ''|'' @ a)"

definition splitKey :: "string \<Rightarrow> string \<times> string" where
  "splitKey key =
     (let a = takeWhile (\<lambda>c. c \<noteq> CHR ''|'') key;
          b = takeWhile (\<lambda>c. c \<noteq> CHR ''|'') (drop (length a + 1) key)
      in (a, b))"

text \<open>The pairs \<open>(items[i], items[j])\<close> with \<open>i < j\<close>, in the order of the two loops.\<close>

definition pairsOf :: "string list \<Rightarrow> (string \<times> string) list" where
  "pairsOf items =
     concat (map (\<lambda>i. map (\<lambda>j. (items ! i, items ! j)) [i + 1..<length items])
                 [0..<length items])"

record cooc_state =
  cs_pairs :: "(string \<times> int) list"
  cs_freq :: "(string \<times> int) list"

definition coocStep :: "Session \<Rightarrow> cooc_state \<Rightarrow> cooc_state" where
  "coocStep session st =
     (let items = se_uniqueItems session
      in \<lparr> cs_pairs = fold (\<lambda>(a, b) m. bumpBy (pairKey a b) 1 m) (pairsOf items) (cs_pairs st),
           cs_freq = fold (\<lambda>ident m. bumpBy ident 1 m) items (cs_freq st) \<rparr>)"

definition coocLoop :: "Session list \<Rightarrow> cooc_state" where
  "coocLoop ss = fold coocStep ss \<lparr> cs_pairs = [], cs_freq = [] \<rparr>"

text \<open>\<^verbatim>\<open>(recos[a] ??= []).push(r)\<close>\<close>

definition pushReco :: "string \<Rightarrow> reco \<Rightarrow> (string \<times> reco list) list \<Rightarrow> (string \<times> reco list) list" where
  "pushReco a r acc = AList.update a (orElse (map_of acc a) [] @ [r]) acc"

definition pairScore :: "(string \<times> int) list \<Rightarrow> string \<Rightarrow> string \<Rightarrow> int \<Rightarrow> real" where
  "pairScore freq a b support =
     of_int support / sqrt (of_int (orElse (map_of freq a) 1 * orElse (map_of freq b) 1))"

text \<open>The loop over \<^verbatim>\<open>pairs.entries()\<close> (lines 434 to 439).\<close>

definition recoStep ::
    "(string \<times> int) list \<Rightarrow> string \<times> int \<Rightarrow> (string \<times> reco list) list \<Rightarrow> (string \<times> reco list) list" where
  "recoStep freq entry acc =
     (let (a, b) = splitKey (fst entry);
          score = pairScore freq a b (snd entry)
      in pushReco b \<lparr> rc_item = a, rc_score = score \<rparr>
           (pushReco a \<lparr> rc_item = b, rc_score = score \<rparr> acc))"

definition rawRecos :: "cooc_state \<Rightarrow> (string \<times> reco list) list" where
  "rawRecos st = fold (recoStep (cs_freq st)) (cs_pairs st) []"

text \<open>
  \<^verbatim>\<open>recos[key].sort((x, y) => y.score - x.score); recos[key] = recos[key].slice(0, 10);\<close>
\<close>

definition topRecos :: "reco list \<Rightarrow> reco list" where
  "topRecos rs = take 10 (sort_key (\<lambda>r. - rc_score r) rs)"

definition cooccurrenceRecos :: "Session list \<Rightarrow> (string \<times> reco list) list \<times> bundle_row list" where
  "cooccurrenceRecos ss =
     (let st = coocLoop ss;
          recos = map (\<lambda>(key, rs). (key, topRecos rs)) (rawRecos st);
          bundles = map (\<lambda>(key, support). \<lparr> fb_items = splitKey key, fb_support = of_int support \<rparr>)
                        (take 15 (sort_key (\<lambda>(key, support). - support) (cs_pairs st)))
      in (recos, bundles))"

subsection \<open>The service: price tiers (\<^verbatim>\<open>robustPriceSplits\<close>, \<^verbatim>\<open>priceSegmentedMarkov\<close>)\<close>

text \<open>
  \<^verbatim>\<open>quantileSorted\<close> is d3-array's, a library function: on a sorted array of \<open>n\<close> numbers
  it is \<open>undefined\<close> for \<open>n = 0\<close>, the first element for \<open>p \<le> 0\<close> or \<open>n < 2\<close>, the last for
  \<open>p \<ge> 1\<close>, and otherwise interpolates linearly at the position \<open>(n - 1) * p\<close>.
  \<^verbatim>\<open>Math.log1p\<close> and \<^verbatim>\<open>Math.expm1\<close> are \<open>ln (1 + x)\<close> and \<open>exp x - 1\<close>.
\<close>

definition quantileSorted :: "real list \<Rightarrow> real \<Rightarrow> real option" where
  "quantileSorted values p =
     (let n = length values
      in if n = 0 then None
         else if p \<le> 0 \<or> n < 2 then Some (values ! 0)
         else if p \<ge> 1 then Some (values ! (n - 1))
         else let i = real (n - 1) * p;
                  i0 = nat \<lfloor>i\<rfloor>;
                  value0 = values ! i0;
                  value1 = values ! (i0 + 1)
              in Some (value0 + (value1 - value0) * (i - real i0)))"

record splits =
  tLow :: "real option"
  tHigh :: "real option"
  dispMin :: real
  dispMax :: real

definition robustPriceSplits :: "real list \<Rightarrow> splits" where
  "robustPriceSplits prices =
     (if prices = [] then \<lparr> tLow = None, tHigh = None, dispMin = 0, dispMax = 0 \<rparr>
      else
        let sorted = sort prices;
            p05 = orElse (quantileSorted sorted (5 / 100)) (sorted ! 0);
            p95 = orElse (quantileSorted sorted (95 / 100)) (sorted ! (length sorted - 1));
            clipped = filter (\<lambda>v. v \<ge> p05 \<and> v \<le> p95) sorted;
            logValues = sort (map (\<lambda>v. ln (1 + v)) clipped);
            l33 = quantileSorted logValues (33 / 100);
            l66 = quantileSorted logValues (66 / 100)
        in \<lparr> tLow = map_option (\<lambda>l. exp l - 1) l33,
             tHigh = map_option (\<lambda>l. exp l - 1) l66,
             dispMin = p05, dispMax = p95 \<rparr>)"

text \<open>\<^verbatim>\<open>Object.values(itemMeta).map((meta) => meta.price || 0).filter(Number.isFinite)\<close>\<close>

definition metaPrices :: "ItemMeta \<Rightarrow> real list" where
  "metaPrices meta = map (\<lambda>(ident, m). m_price m) meta"

record tier_state =
  nViewSess :: int
  nViewThenCartSess :: int
  ts_adds :: int
  ts_removes :: int

definition zeroTier :: tier_state where
  "zeroTier = \<lparr> nViewSess = 0, nViewThenCartSess = 0, ts_adds = 0, ts_removes = 0 \<rparr>"

definition tierForItem :: "splits \<Rightarrow> ItemMeta \<Rightarrow> string \<Rightarrow> PriceTier" where
  "tierForItem sp meta ident =
     (let price = priceOf meta ident
      in case (tLow sp, tHigh sp) of
           (Some lo, Some hi) \<Rightarrow>
             if lo = hi then AllTier
             else if price \<le> lo then Low
             else if price \<le> hi then Mid
             else High
         | _ \<Rightarrow> AllTier)"

text \<open>\<^verbatim>\<open>evt.add\<close> as a condition: a number that is there and is not 0.\<close>

definition truthy :: "int option \<Rightarrow> bool" where
  "truthy x = (case x of None \<Rightarrow> False | Some n \<Rightarrow> n \<noteq> 0)"

record markov_state =
  ms_tiers :: "(PriceTier \<times> tier_state) list"
  ms_overall :: tier_state

text \<open>The body of the loop over the sessions (lines 505 to 550).\<close>

definition markovStep :: "splits \<Rightarrow> ItemMeta \<Rightarrow> Session \<Rightarrow> markov_state \<Rightarrow> markov_state" where
  "markovStep sp meta session st =
     (let viewed = uniqueList (map (\<lambda>evt. tierForItem sp meta (ev_itemId evt)) (se_views session));
          added = uniqueList (map (\<lambda>evt. tierForItem sp meta (ev_itemId evt))
                               (filter (\<lambda>evt. truthy (ev_add evt)) (se_carts session)));
          overall1 =
            (if length (se_views session) > 0
             then (ms_overall st)
                    \<lparr> nViewSess := nViewSess (ms_overall st) + 1,
                      nViewThenCartSess := nViewThenCartSess (ms_overall st)
                        + (if \<exists>evt \<in> set (se_carts session). truthy (ev_add evt) then 1 else 0) \<rparr>
             else ms_overall st);
          tiers1 =
            fold (\<lambda>tier tiers.
                    let state = orElse (map_of tiers tier) zeroTier
                    in AList.update tier
                         (state \<lparr> nViewSess := nViewSess state + 1,
                                  nViewThenCartSess := nViewThenCartSess state
                                    + (if tier \<in> set added then 1 else 0) \<rparr>) tiers)
                 viewed (ms_tiers st);
          tiers2 =
            fold (\<lambda>evt tiers.
                    let tier = tierForItem sp meta (ev_itemId evt);
                        state = orElse (map_of tiers tier) zeroTier
                    in AList.update tier
                         (state \<lparr> ts_adds := ts_adds state + orElse (ev_add evt) 0,
                                  ts_removes := ts_removes state + orElse (ev_remove evt) 0 \<rparr>) tiers)
                 (se_carts session) tiers1;
          overall2 =
            overall1 \<lparr> ts_adds := ts_adds overall1
                           + sum_list (map (\<lambda>evt. orElse (ev_add evt) 0) (se_carts session)),
                       ts_removes := ts_removes overall1
                           + sum_list (map (\<lambda>evt. orElse (ev_remove evt) 0) (se_carts session)) \<rparr>
      in \<lparr> ms_tiers = tiers2, ms_overall = overall2 \<rparr>)"

definition tierCell :: "tier_state \<Rightarrow> markov_cell" where
  "tierCell state =
     (let denom = (if ts_adds state > 0 then ts_adds state else 1)
      in \<lparr> pViewToCart = (if nViewSess state > 0
                           then of_int (nViewThenCartSess state) / of_int (nViewSess state) else 0),
           pCartToCheckout =
             clampValue (of_int (ts_adds state - ts_removes state) / of_int denom) 0 1 \<rparr>)"

record MarkovSummary =
  mk_model :: "PriceTier \<Rightarrow> markov_cell"
  mk_tLow :: "real option"
  mk_tHigh :: "real option"
  mk_min :: real
  mk_max :: real

definition priceSegmentedMarkov :: "Session list \<Rightarrow> ItemMeta \<Rightarrow> MarkovSummary" where
  "priceSegmentedMarkov ss meta =
     (let sp = robustPriceSplits (metaPrices meta);
          st = fold (markovStep sp meta) ss \<lparr> ms_tiers = [], ms_overall = zeroTier \<rparr>;
          model = (\<lambda>tier. if tier = AllTier then tierCell (ms_overall st)
                           else case map_of (ms_tiers st) tier of
                                  None \<Rightarrow> \<lparr> pViewToCart = 0, pCartToCheckout = 0 \<rparr>
                                | Some state \<Rightarrow> tierCell state)
      in \<lparr> mk_model = model, mk_tLow = tLow sp, mk_tHigh = tHigh sp,
           mk_min = dispMin sp, mk_max = dispMax sp \<rparr>)"

subsection \<open>The service: event streams and transitions\<close>

datatype EventType = cart_add | cart_remove | view | wishlist_add | wishlist_remove

record TransitionEvent =
  te_ts :: jsdate
  te_type :: EventType
  te_itemId :: string
  te_price :: real

definition mkEvent :: "ItemMeta \<Rightarrow> EventType \<Rightarrow> SessionEvent \<Rightarrow> TransitionEvent" where
  "mkEvent meta ty evt =
     \<lparr> te_ts = ev_ts evt, te_type = ty, te_itemId = ev_itemId evt,
       te_price = priceOf meta (ev_itemId evt) \<rparr>"

text \<open>
  \<^verbatim>\<open>buildEventStreamForSession\<close>: the views, the cart adds and removes, the wishlist
  adds and removes, then \<^verbatim>\<open>events.sort((a, b) => a.ts.getTime() - b.ts.getTime())\<close>.
\<close>

definition buildEventStreamForSession :: "Session \<Rightarrow> ItemMeta \<Rightarrow> TransitionEvent list" where
  "buildEventStreamForSession session meta =
     sort_key (\<lambda>e. millis (te_ts e))
       (map (mkEvent meta view) (se_views session)
        @ concat (map (\<lambda>cart. (if truthy (ev_add cart) then [mkEvent meta cart_add cart] else [])
                              @ (if truthy (ev_remove cart) then [mkEvent meta cart_remove cart] else []))
                      (se_carts session))
        @ concat (map (\<lambda>wish. (if truthy (ev_add wish) then [mkEvent meta wishlist_add wish] else [])
                              @ (if truthy (ev_remove wish) then [mkEvent meta wishlist_remove wish] else []))
                      (se_wish session)))"

definition states :: "EventType list" where
  "states = [cart_add, cart_remove, view, wishlist_add, wishlist_remove]"

fun stateIndex :: "EventType \<Rightarrow> nat" where
  "stateIndex cart_add = 0"
| "stateIndex cart_remove = 1"
| "stateIndex view = 2"
| "stateIndex wishlist_add = 3"
| "stateIndex wishlist_remove = 4"

fun stateName :: "EventType \<Rightarrow> string" where
  "stateName cart_add = ''cart_add''"
| "stateName cart_remove = ''cart_remove''"
| "stateName view = ''view''"
| "stateName wishlist_add = ''wishlist_add''"
| "stateName wishlist_remove = ''wishlist_remove''"

text \<open>The adjacent pairs \<open>(events[i], events[i + 1])\<close> of every session, in order.\<close>

definition adjacentPairs :: "'a list \<Rightarrow> ('a \<times> 'a) list" where
  "adjacentPairs events = zip events (tl events)"

definition allTransitions :: "Session list \<Rightarrow> ItemMeta \<Rightarrow> (TransitionEvent \<times> TransitionEvent) list" where
  "allTransitions ss meta =
     concat (map (\<lambda>session. adjacentPairs (buildEventStreamForSession session meta)) ss)"

text \<open>\<^verbatim>\<open>counts[ia][ib] += 1\<close>\<close>

definition bumpCell :: "nat \<Rightarrow> nat \<Rightarrow> int list list \<Rightarrow> int list list" where
  "bumpCell ia ib counts = counts[ia := (counts ! ia)[ib := counts ! ia ! ib + 1]]"

definition transitionCounts :: "(TransitionEvent \<times> TransitionEvent) list \<Rightarrow> int list list" where
  "transitionCounts trs =
     fold (\<lambda>(a, b) counts. bumpCell (stateIndex (te_type a)) (stateIndex (te_type b)) counts)
          trs (replicate (length states) (replicate (length states) 0))"

text \<open>The links of the service: every cell above 0, self-loops included (lines 690 to 698).\<close>

definition serviceLinks :: "int list list \<Rightarrow> link list" where
  "serviceLinks counts =
     concat (map (\<lambda>i. concat (map (\<lambda>j. let v = counts ! i ! j
                                         in if v > 0
                                            then [\<lparr> l_source = i, l_target = j, l_value = v \<rparr>]
                                            else [])
                                  [0..<length states]))
                 [0..<length states])"

record transition_info =
  ti_states :: "EventType list"
  ti_counts :: "int list list"
  ti_probs :: "real list list"
  ti_sankey :: sankey_t
  ti_allTransitions :: "(TransitionEvent \<times> TransitionEvent) list"

definition transitionMatrixAndSankey :: "Session list \<Rightarrow> ItemMeta \<Rightarrow> transition_info" where
  "transitionMatrixAndSankey ss meta =
     (let trs = allTransitions ss meta;
          counts = transitionCounts trs
      in \<lparr> ti_states = states,
           ti_counts = counts,
           ti_probs = rowProbs counts,
           ti_sankey = \<lparr> sk_nodes = map stateName states, sk_links = serviceLinks counts \<rparr>,
           ti_allTransitions = trs \<rparr>)"

subsection \<open>The service: price bands and price samples\<close>

record band_totals =
  bt_view :: int
  bt_wish :: int

record band_hits =
  viewCart :: int
  wishCart :: int

record band_acc =
  totals :: "PriceTier \<Rightarrow> band_totals"
  hits :: "PriceTier \<Rightarrow> band_hits"

definition bandForPrice :: "real \<Rightarrow> real \<Rightarrow> real \<Rightarrow> PriceTier" where
  "bandForPrice lo hi price = (if price \<le> lo then Low else if price \<le> hi then Mid else High)"

text \<open>The body of the loop over the transitions (lines 807 to 822).\<close>

definition bandStep :: "real \<Rightarrow> real \<Rightarrow> TransitionEvent \<times> TransitionEvent \<Rightarrow> band_acc \<Rightarrow> band_acc" where
  "bandStep lo hi tr acc =
     (let b = bandForPrice lo hi (te_price (fst tr));
          acc1 =
            (if te_type (fst tr) = view
             then acc \<lparr> totals := (totals acc)(b := (totals acc b)\<lparr> bt_view := bt_view (totals acc b) + 1 \<rparr>),
                        hits := (if te_type (snd tr) = cart_add
                                 then (hits acc)(b := (hits acc b)\<lparr> viewCart := viewCart (hits acc b) + 1 \<rparr>)
                                 else hits acc) \<rparr>
             else acc)
      in if te_type (fst tr) = wishlist_add
         then acc1 \<lparr> totals := (totals acc1)(b := (totals acc1 b)\<lparr> bt_wish := bt_wish (totals acc1 b) + 1 \<rparr>),
                     hits := (if te_type (snd tr) = cart_add
                              then (hits acc1)(b := (hits acc1 b)\<lparr> wishCart := wishCart (hits acc1 b) + 1 \<rparr>)
                              else hits acc1) \<rparr>
         else acc1)"

definition bandLoop :: "real \<Rightarrow> real \<Rightarrow> (TransitionEvent \<times> TransitionEvent) list \<Rightarrow> band_acc" where
  "bandLoop lo hi trs =
     fold (bandStep lo hi) trs
       \<lparr> totals = (\<lambda>_. \<lparr> bt_view = 0, bt_wish = 0 \<rparr>),
         hits = (\<lambda>_. \<lparr> viewCart = 0, wishCart = 0 \<rparr>) \<rparr>"

definition emptyBand :: "PriceTier \<Rightarrow> real \<Rightarrow> real \<Rightarrow> band" where
  "emptyBand name lo hi =
     \<lparr> b_name = name, b_min = lo, b_max = hi, b_viewToCart = 0, b_wishToCart = 0,
       b_nView = 0, b_nWish = 0 \<rparr>"

text \<open>The body of the last loop (lines 824 to 836), with \<open>alpha = 1\<close>.\<close>

definition finishBand :: "band_acc \<Rightarrow> band \<Rightarrow> band" where
  "finishBand acc b =
     (let alpha = 1;
          totalsForBand = totals acc (b_name b);
          hitsForBand = hits acc (b_name b)
      in b \<lparr> b_nView := bt_view totalsForBand,
             b_nWish := bt_wish totalsForBand,
             b_viewToCart :=
               (if bt_view totalsForBand \<noteq> 0
                then (of_int (viewCart hitsForBand) + alpha) / (of_int (bt_view totalsForBand) + 2 * alpha)
                else 0),
             b_wishToCart :=
               (if bt_wish totalsForBand \<noteq> 0
                then (of_int (wishCart hitsForBand) + alpha) / (of_int (bt_wish totalsForBand) + 2 * alpha)
                else 0) \<rparr>)"

definition priceBandsFromQuantiles ::
    "ItemMeta \<Rightarrow> (TransitionEvent \<times> TransitionEvent) list \<Rightarrow> price_bands" where
  "priceBandsFromQuantiles meta trs =
     (let prices = metaPrices meta
      in if prices = [] then \<lparr> bands = [emptyBand AllTier 0 0] \<rparr>
         else
           let sp = robustPriceSplits prices
           in case (tLow sp, tHigh sp) of
                (Some lo, Some hi) \<Rightarrow>
                  if lo < hi
                  then \<lparr> bands = map (finishBand (bandLoop lo hi trs))
                                    [emptyBand Low (dispMin sp) lo,
                                     emptyBand Mid lo hi,
                                     emptyBand High hi (dispMax sp)] \<rparr>
                  else \<lparr> bands = [emptyBand AllTier (dispMin sp) (dispMax sp)] \<rparr>
              | _ \<Rightarrow> \<lparr> bands = [emptyBand AllTier (dispMin sp) (dispMax sp)] \<rparr>)"

definition buildPriceRangeData ::
    "Session list \<Rightarrow> ItemMeta \<Rightarrow> (TransitionEvent \<times> TransitionEvent) list \<Rightarrow> price_range_data" where
  "buildPriceRangeData ss meta trs =
     (let fromViews = filter (\<lambda>tr. te_type (fst tr) = view) trs;
          carts = concat (map se_carts ss)
      in \<lparr> viewFromPrices = map (\<lambda>tr. te_price (fst tr)) fromViews,
           viewToCartFromPrices =
             map (\<lambda>tr. te_price (fst tr)) (filter (\<lambda>tr. te_type (snd tr) = cart_add) fromViews),
           cartAddPrices =
             map (\<lambda>cart. priceOf meta (ev_itemId cart)) (filter (\<lambda>cart. truthy (ev_add cart)) carts),
           cartRemovePrices =
             map (\<lambda>cart. priceOf meta (ev_itemId cart)) (filter (\<lambda>cart. truthy (ev_remove cart)) carts) \<rparr>)"

subsection \<open>The service: countries, categories, days\<close>

record geo_stats =
  gs_n :: int
  gs_converted :: int

definition geoStep :: "Session \<Rightarrow> (string \<times> geo_stats) list \<Rightarrow> (string \<times> geo_stats) list" where
  "geoStep session byCountry =
     (let key = (if se_country session = [] then ''Unknown'' else se_country session);
          entry = orElse (map_of byCountry key) \<lparr> gs_n = 0, gs_converted = 0 \<rparr>
      in AList.update key
           \<lparr> gs_n = gs_n entry + 1,
             gs_converted = gs_converted entry + (if se_nCartAdd session > 0 then 1 else 0) \<rparr>
           byCountry)"

definition geoBehavioralInsights :: "Session list \<Rightarrow> geo_row list" where
  "geoBehavioralInsights ss =
     take 20 (sort_key (\<lambda>g. - g_conversionRate g)
       (map (\<lambda>(country, stats).
               \<lparr> g_country = country,
                 g_conversionRate = (if gs_n stats \<noteq> 0
                                     then of_int (gs_converted stats) / of_int (gs_n stats) else 0) \<rparr>)
            (fold geoStep ss [])))"

datatype CatKey = views | carts | wish

text \<open>\<^verbatim>\<open>bump(category, key)\<close> of \<^verbatim>\<open>categoryInteractions\<close> (lines 903 to 914).\<close>

definition bump :: "string \<times> CatKey \<Rightarrow> (string \<times> cat_row) list \<Rightarrow> (string \<times> cat_row) list" where
  "bump ck byCategory =
     (let category = fst ck;
          entry = orElse (map_of byCategory category)
                    \<lparr> c_category = category, c_views = 0, c_carts = 0, c_wish = 0, c_total = 0 \<rparr>;
          entry1 = (case snd ck of
                      views \<Rightarrow> entry\<lparr> c_views := c_views entry + 1 \<rparr>
                    | carts \<Rightarrow> entry\<lparr> c_carts := c_carts entry + 1 \<rparr>
                    | wish \<Rightarrow> entry\<lparr> c_wish := c_wish entry + 1 \<rparr>)
      in AList.update category (entry1\<lparr> c_total := c_total entry1 + 1 \<rparr>) byCategory)"

text \<open>The bumps of one session, in the order of the three loops (lines 917 to 929).\<close>

definition sessionBumps :: "ItemMeta \<Rightarrow> Session \<Rightarrow> (string \<times> CatKey) list" where
  "sessionBumps meta session =
     map (\<lambda>evt. (categoryOf meta (ev_itemId evt), views)) (se_views session)
     @ map (\<lambda>evt. (categoryOf meta (ev_itemId evt), carts))
           (filter (\<lambda>evt. truthy (ev_add evt)) (se_carts session))
     @ map (\<lambda>evt. (categoryOf meta (ev_itemId evt), wish))
           (filter (\<lambda>evt. truthy (ev_add evt)) (se_wish session))"

definition byCategory :: "Session list \<Rightarrow> ItemMeta \<Rightarrow> (string \<times> cat_row) list" where
  "byCategory ss meta = fold bump (concat (map (sessionBumps meta) ss)) []"

definition categoryInteractionsOf :: "Session list \<Rightarrow> ItemMeta \<Rightarrow> cat_row list" where
  "categoryInteractionsOf ss meta =
     take 20 (sort_key (\<lambda>c. - c_total c) (map snd (byCategory ss meta)))"

text \<open>
  \<^verbatim>\<open>dailyTrends\<close>. The events carry valid dates, so \<^verbatim>\<open>dayKey\<close> is the local day of
  the event. \<^verbatim>\<open>mean\<close> and \<^verbatim>\<open>deviation\<close> are d3-array's: the arithmetic mean
  (\<open>undefined\<close> of no number) and the sample standard deviation (\<open>undefined\<close> of fewer
  than two numbers).
\<close>

definition dayKey :: "jsdate \<Rightarrow> string" where
  "dayKey d = localDay d"

definition d3_mean :: "real list \<Rightarrow> real option" where
  "d3_mean xs = (if xs = [] then None else Some (sum_list xs / real (length xs)))"

definition d3_deviation :: "real list \<Rightarrow> real option" where
  "d3_deviation xs =
     (if length xs < 2 then None
      else let m = sum_list xs / real (length xs)
           in Some (sqrt (sum_list (map (\<lambda>x. (x - m) ^ 2) xs) / real (length xs - 1))))"

datatype DayKind = dayView | dayCart

definition dayStep :: "string \<times> DayKind \<Rightarrow> (string \<times> int \<times> int) list \<Rightarrow> (string \<times> int \<times> int) list" where
  "dayStep kd byDay =
     (let record = orElse (map_of byDay (fst kd)) (0, 0)
      in AList.update (fst kd)
           (case snd kd of
              dayView \<Rightarrow> (fst record + 1, snd record)
            | dayCart \<Rightarrow> (fst record, snd record + 1)) byDay)"

definition sessionDays :: "Session \<Rightarrow> (string \<times> DayKind) list" where
  "sessionDays session =
     map (\<lambda>evt. (dayKey (ev_ts evt), dayView)) (se_views session)
     @ map (\<lambda>evt. (dayKey (ev_ts evt), dayCart))
           (filter (\<lambda>evt. truthy (ev_add evt)) (se_carts session))"

definition dailySeries :: "Session list \<Rightarrow> daily_row list" where
  "dailySeries ss =
     map (\<lambda>(date, record). \<lparr> d_date = date, d_views = fst record, d_carts = snd record \<rparr>)
         (sort_key fst (fold dayStep (concat (map sessionDays ss)) []))"

definition dailyTrends :: "Session list \<Rightarrow> daily_t" where
  "dailyTrends ss =
     (let rows = dailySeries ss;
          cartCounts = map (\<lambda>row. real_of_int (d_carts row)) rows;
          avg = orElse (d3_mean cartCounts) 0;
          std = orElse (d3_deviation cartCounts) 0;
          lower = (if avg > 0 then max 0 (avg - 2 * std) else 0);
          upper = avg + 2 * std;
          has = (length cartCounts \<ge> 3 \<and> std > 0);
          outliers = (if has
                      then map d_date (filter (\<lambda>row. of_int (d_carts row) < lower
                                                      \<or> of_int (d_carts row) > upper) rows)
                      else [])
      in \<lparr> series = rows,
           anomaly = \<lparr> hasThresholds = has, a_lower = lower, a_upper = upper,
                       a_outliers = outliers \<rparr> \<rparr>)"

subsection \<open>The service: the bundle (\<^verbatim>\<open>computeAnalyticsFromDocs\<close>)\<close>

definition VERSION :: string where
  "VERSION = ''v2025-10-02b: price-range+catmap+reset-month (Next.js)''"

definition sessionRow :: "Session \<Rightarrow> session_row" where
  "sessionRow session =
     \<lparr> s_sessionId = se_sessionId session,
       s_visitorId = se_visitorId session,
       s_country = se_country session,
       s_ts = isoString (se_ts session),
       s_nView = se_nView session,
       s_nCartAdd = se_nCartAdd session,
       s_nCartRemove = se_nCartRemove session \<rparr>"

definition bundleOf :: "Session list \<Rightarrow> ItemMeta \<Rightarrow> AnalyticsResponse" where
  "bundleOf ss meta =
     (let leak' = leakAnalytics ss meta;
          rb = cooccurrenceRecos ss;
          markov = priceSegmentedMarkov ss meta;
          transitionInfo = transitionMatrixAndSankey ss meta;
          priceBands' = priceBandsFromQuantiles meta (ti_allTransitions transitionInfo);
          daily' = dailyTrends ss;
          geoInsights' = geoBehavioralInsights ss;
          priceRangeData' = buildPriceRangeData ss meta (ti_allTransitions transitionInfo);
          catInteractions = categoryInteractionsOf ss meta
      in \<lparr> sessions = map sessionRow ss,
           leak = leak',
           recos = fst rb,
           frequentBundles = snd rb,
           priceMarkov = mk_model markov,
           priceMarkovMeta = \<lparr> mm_tLow = mk_tLow markov, mm_tHigh = mk_tHigh markov,
                               mm_min = mk_min markov, mm_max = mk_max markov \<rparr>,
           priceBands = priceBands',
           priceRangeData = priceRangeData',
           categoryInteractions = catInteractions,
           transitions = \<lparr> t_states = map stateName (ti_states transitionInfo),
                            t_counts = ti_counts transitionInfo,
                            t_probs = ti_probs transitionInfo \<rparr>,
           sankey = ti_sankey transitionInfo,
           daily = daily',
           geoInsights = geoInsights',
           itemMeta = meta,
           version = VERSION \<rparr>)"

definition computeAnalyticsFromDocs ::
    "raw_doc list \<Rightarrow> raw_listing list \<Rightarrow> raw_category list \<Rightarrow> AnalyticsResponse" where
  "computeAnalyticsFromDocs trackingDocs listings productCategories =
     (let categoryMap = buildCategoryMap productCategories;
          meta = buildItemMeta listings categoryMap;
          ss = map collectSessionEvents trackingDocs
      in bundleOf ss meta)"

subsection \<open>The service: identifiers (\<^verbatim>\<open>strId\<close>)\<close>

text \<open>
  \<^verbatim>\<open>strId(value, seen = new WeakSet())\<close> walks through objects that may refer to each
  other, so the objects live in a heap: a list of objects, a reference being an index.
  An object is its properties and what its \<^verbatim>\<open>toString\<close> is:
  \<^item> \<open>Returns s\<close>: a function that returns the string \<open>s\<close> (\<^verbatim>\<open>[object Object]\<close> for a plain
    object, the 24 hexadecimal digits for an ObjectId);
  \<^item> \<open>NotCallable\<close>: a property that is no function, as in the parsed JSON text
    \<^verbatim>\<open>{"toString": 1}\<close>; calling it throws a \<open>TypeError\<close>;
  \<^item> \<open>Raises\<close>: a function that throws;
  \<^item> \<open>NoToString\<close>: no such property at all, own or inherited (an object without a
    prototype); \<^verbatim>\<open>"toString" in value\<close> is false and \<^verbatim>\<open>String(value)\<close> throws a
    \<open>TypeError\<close>.

  The numbers are the integers and \<open>NaN\<close>. Reading through a reference outside the heap
  gives a plain object without properties. \<open>seen\<close> is the set of the references added so
  far. A call returns a string or \<open>null\<close> (\<open>Inr\<close>), or it throws (\<open>Inl\<close>).
\<close>

datatype jsval = JUndefined | JNull | JBool bool | JNum int | JNaN | JStr string | JRef nat

datatype toString_t = Returns string | NotCallable | Raises | NoToString

datatype thrown = NotAFunction | ToStringRaised | CannotConvert

record jsobj =
  props :: "(string \<times> jsval) list"
  toStringOf :: toString_t

type_synonym heap = "jsobj list"

definition deref :: "heap \<Rightarrow> nat \<Rightarrow> jsobj" where
  "deref h r = (if r < length h then h ! r
                else \<lparr> props = [], toStringOf = Returns ''[object Object]'' \<rparr>)"

definition falsy :: "jsval \<Rightarrow> bool" where
  "falsy v = (v = JUndefined \<or> v = JNull \<or> v = JBool False \<or> v = JNum 0 \<or> v = JNaN \<or> v = JStr [])"

definition isHex :: "char \<Rightarrow> bool" where
  "isHex c = (c \<in> set ''0123456789abcdefABCDEF'')"

definition isObjectIdText :: "string \<Rightarrow> bool" where
  "isObjectIdText t = (length t = 24 \<and> list_all isHex t)"

fun showNat :: "nat \<Rightarrow> string" where
  "showNat n = (if n < 10 then [''0123456789'' ! n]
                else showNat (n div 10) @ [''0123456789'' ! (n mod 10)])"

definition js_String :: "jsval \<Rightarrow> string" where
  "js_String v =
     (case v of
        JUndefined \<Rightarrow> ''undefined''
      | JNull \<Rightarrow> ''null''
      | JBool b \<Rightarrow> (if b then ''true'' else ''false'')
      | JNum n \<Rightarrow> (if n < 0 then ''-'' @ showNat (nat (- n)) else showNat (nat n))
      | JNaN \<Rightarrow> ''NaN''
      | JStr t \<Rightarrow> t
      | JRef r \<Rightarrow> [])"

text \<open>A new object leaves fewer objects unseen: the measure of the recursion.\<close>

lemma card_unseen:
  "r < (n::nat) \<Longrightarrow> r \<notin> seen \<Longrightarrow> card ({r. r < n} - insert r seen) < card ({r. r < n} - seen)"
proof (rule psubset_card_mono)
  show "finite ({r. r < n} - seen)" by simp
qed auto

text \<open>\<^verbatim>\<open>typeof obj["$oid"] === "string"\<close>, and then the string.\<close>

definition oidOf :: "jsobj \<Rightarrow> string option" where
  "oidOf obj = (case map_of (props obj) ''$oid'' of Some (JStr oid) \<Rightarrow> Some oid | _ \<Rightarrow> None)"

text \<open>
  Lines 160 and 161, \<^verbatim>\<open>if (value && typeof value === "object" && "toString" in value) {
  const str = value.toString(); ...\<close>: the call is guarded by the presence of the
  property only, so it throws when \<^verbatim>\<open>toString\<close> is no function. The result is the string the
  call returned, or \<open>None\<close> when the object has no \<^verbatim>\<open>toString\<close> and the call is skipped.
\<close>

definition callToString :: "jsobj \<Rightarrow> thrown + string option" where
  "callToString obj =
     (case toStringOf obj of
        Returns str \<Rightarrow> Inr (Some str)
      | NotCallable \<Rightarrow> Inl NotAFunction
      | Raises \<Rightarrow> Inl ToStringRaised
      | NoToString \<Rightarrow> Inr None)"

text \<open>
  Lines 189 to 198, reached by an object without a string \<^verbatim>\<open>$oid\<close> and without \<^verbatim>\<open>_id\<close>:
  \<^verbatim>\<open>if (typeof obj.toString === "function" && obj.toString() !== "[object Object]")
    return obj.toString();
  ...
  return String(value);\<close>
  With a \<^verbatim>\<open>toString\<close> that returns \<open>str\<close> both ways give \<open>str\<close>; without one,
  \<^verbatim>\<open>String(value)\<close> finds nothing to convert the object with and throws.
\<close>

definition fallback :: "string option \<Rightarrow> thrown + string option" where
  "fallback called = (case called of Some str \<Rightarrow> Inr (Some str) | None \<Rightarrow> Inl CannotConvert)"

definition printsObjectId :: "string option \<Rightarrow> bool" where
  "printsObjectId called = (case called of Some str \<Rightarrow> isObjectIdText str | None \<Rightarrow> False)"

function strId :: "heap \<Rightarrow> nat set \<Rightarrow> jsval \<Rightarrow> thrown + string option" where
  "strId h seen v =
     (if falsy v then Inr None
      else case v of
             JStr t \<Rightarrow> Inr (Some t)
           | JRef r \<Rightarrow>
               (let obj = deref h r
                in case callToString obj of
                     Inl e \<Rightarrow> Inl e
                   | Inr called \<Rightarrow>
                       if printsObjectId called then Inr called
                       else if r \<in> seen then Inr None
                       else case oidOf obj of
                              Some oid \<Rightarrow> Inr (Some oid)
                            | None \<Rightarrow>
                                (case map_of (props obj) ''_id'' of
                                   Some v' \<Rightarrow> strId h (insert r seen) v'
                                 | None \<Rightarrow> fallback called))
           | _ \<Rightarrow> Inr (Some (js_String v)))"
  by pat_completeness auto

termination strId
proof (relation "measure (\<lambda>(h, seen, v). card ({r. r < length h} - seen))", goal_cases)
  case 1
  show ?case by simp
next
  case (2 h seen v r obj called v')
  have "r < length h"
    using 2 by (auto simp: deref_def split: if_splits)
  moreover have "r \<notin> seen" using 2 by simp
  ultimately have "card ({r. r < length h} - insert r seen) < card ({r. r < length h} - seen)"
    by (rule card_unseen)
  then show ?case using 2 by simp
qed

declare strId.simps [simp del]

text \<open>
  An object is quiet when calling its \<^verbatim>\<open>toString\<close> at line 161 does not throw and gives
  no ObjectId. A set of objects is closed under \<open>_id\<close> when each of its objects is quiet,
  has no string \<open>$oid\<close>, and has an \<open>_id\<close> that is an object of the set again. The heap is
  finite, so following \<open>_id\<close> from such an object comes back to an object already passed:
  these are the circular structures. \<open>selfRef\<close> is the smallest one, an object that is its
  own \<open>_id\<close>; \<open>brokenRef\<close> is the same object with a \<^verbatim>\<open>toString\<close> that is the number 1,
  what \<^verbatim>\<open>const o = { name: "loop", toString: 1 }; o._id = o\<close> builds.
\<close>

definition quiet :: "jsobj \<Rightarrow> bool" where
  "quiet obj = (case callToString obj of Inl e \<Rightarrow> False | Inr called \<Rightarrow> \<not> printsObjectId called)"

definition idClosed :: "heap \<Rightarrow> nat set \<Rightarrow> bool" where
  "idClosed h P =
     (\<forall>r \<in> P. r < length h \<and> quiet (h ! r) \<and> oidOf (h ! r) = None \<and>
               (\<exists>r' \<in> P. map_of (props (h ! r)) ''_id'' = Some (JRef r')))"

definition selfRef :: heap where
  "selfRef = [\<lparr> props = [(''name'', JStr ''loop''), (''_id'', JRef 0)],
               toStringOf = Returns ''[object Object]'' \<rparr>]"

definition brokenRef :: heap where
  "brokenRef = [\<lparr> props = [(''name'', JStr ''loop''), (''_id'', JRef 0)],
                 toStringOf = NotCallable \<rparr>]"

subsection \<open>Sample input\<close>

text \<open>
  Two visits. On 1 October a visitor views item \<open>A\<close> and puts it into the cart twice. On
  2 October another visitor puts item \<open>B\<close> into the cart twice and deletes both entries
  ten minutes later.
\<close>

definition day1a :: jsdate where
  "day1a = \<lparr> millis = 1727769600000, isoString = ''2024-10-01T08:00:00.000Z'',
              localDay = ''2024-10-01'' \<rparr>"

definition day1b :: jsdate where
  "day1b = \<lparr> millis = 1727769900000, isoString = ''2024-10-01T08:05:00.000Z'',
              localDay = ''2024-10-01'' \<rparr>"

definition day2a :: jsdate where
  "day2a = \<lparr> millis = 1727859600000, isoString = ''2024-10-02T09:00:00.000Z'',
              localDay = ''2024-10-02'' \<rparr>"

definition day2b :: jsdate where
  "day2b = \<lparr> millis = 1727860200000, isoString = ''2024-10-02T09:10:00.000Z'',
              localDay = ''2024-10-02'' \<rparr>"

definition sampleDocs :: "raw_doc list" where
  "sampleDocs =
     [\<lparr> doc_id = Some ''s1'', doc_uuid = ''u1'', doc_visitorId = ''v1'',
        doc_country = Some ''DE'', doc_createdAt = Some day1a, doc_now = day2b,
        viewItems = [\<lparr> rv_item = Some ''A'', rv_time = Some day1a \<rparr>],
        cartItems = [\<lparr> ci_item = Some ''A'', ci_createdAt = Some day1b,
                       ci_deleted = False, ci_updatedAt = None \<rparr>,
                     \<lparr> ci_item = Some ''A'', ci_createdAt = Some day1b,
                       ci_deleted = False, ci_updatedAt = None \<rparr>],
        wishlistItems = [] \<rparr>,
      \<lparr> doc_id = Some ''s2'', doc_uuid = ''u2'', doc_visitorId = ''v2'',
        doc_country = Some ''FR'', doc_createdAt = Some day2a, doc_now = day2b,
        viewItems = [],
        cartItems = [\<lparr> ci_item = Some ''B'', ci_createdAt = Some day2a,
                       ci_deleted = True, ci_updatedAt = Some day2b \<rparr>,
                     \<lparr> ci_item = Some ''B'', ci_createdAt = Some day2a,
                       ci_deleted = True, ci_updatedAt = Some day2b \<rparr>],
        wishlistItems = [] \<rparr>]"

definition sampleListings :: "raw_listing list" where
  "sampleListings =
     [\<lparr> li_id = Some ''A'', li_title = ''Amp'', li_price = Some 10,
        li_categoryId = Some ''c1'', li_type = None, li_brand = None \<rparr>,
      \<lparr> li_id = Some ''B'', li_title = ''Beamer'', li_price = Some 20,
        li_categoryId = None, li_type = Some ''Video'', li_brand = None \<rparr>]"

definition sampleCategories :: "raw_category list" where
  "sampleCategories = [\<lparr> cat_id = Some ''c1'', cat_name = ''Audio'' \<rparr>]"

definition sampleSessions :: "Session list" where
  "sampleSessions = map collectSessionEvents sampleDocs"

definition sampleMeta :: ItemMeta where
  "sampleMeta = buildItemMeta sampleListings (buildCategoryMap sampleCategories)"

definition sampleBundle :: AnalyticsResponse where
  "sampleBundle = computeAnalyticsFromDocs sampleDocs sampleListings sampleCategories"

subsection \<open>Sample input for the price bands\<close>

text \<open>
  Four items priced 1, 1, 3 and 3: the tier boundaries are \<open>tLow = 1\<close> and
  \<open>tHigh = exp (ln 2 + (ln 4 - ln 2) * 0.98) - 1\<close>, about 2.94. One transition: a view of
  item \<open>A\<close> followed by a cart add.
\<close>

definition bandMeta :: ItemMeta where
  "bandMeta =
     [(''A'', \<lparr> m_title = ''a'', m_price = 1, m_category = ''Other'', m_brand = [] \<rparr>),
      (''B'', \<lparr> m_title = ''b'', m_price = 1, m_category = ''Other'', m_brand = [] \<rparr>),
      (''C'', \<lparr> m_title = ''c'', m_price = 3, m_category = ''Other'', m_brand = [] \<rparr>),
      (''D'', \<lparr> m_title = ''d'', m_price = 3, m_category = ''Other'', m_brand = [] \<rparr>)]"

definition bandHigh :: real where
  "bandHigh = exp (ln 2 + (ln 4 - ln 2) * (49 / 50)) - 1"

definition bandTrs :: "(TransitionEvent \<times> TransitionEvent) list" where
  "bandTrs =
     [(\<lparr> te_ts = day1a, te_type = view, te_itemId = ''A'', te_price = 1 \<rparr>,
       \<lparr> te_ts = day1b, te_type = cart_add, te_itemId = ''A'', te_price = 1 \<rparr>)]"

subsection \<open>Sample input for the recommendations\<close>

text \<open>
  Eleven visits of two viewed items each: item \<open>b\<close> with each of \<open>c0\<close> to \<open>c9\<close>, then
  \<open>a\<close> with \<open>b\<close>. Every pair has support 1 and score \<open>1 / sqrt 11\<close>.
\<close>

definition viewDoc :: "string \<Rightarrow> string list \<Rightarrow> raw_doc" where
  "viewDoc ident items =
     \<lparr> doc_id = Some ident, doc_uuid = ident, doc_visitorId = ''v'', doc_country = None,
       doc_createdAt = Some day1a, doc_now = day1a,
       viewItems = map (\<lambda>i. \<lparr> rv_item = Some i, rv_time = None \<rparr>) items,
       cartItems = [], wishlistItems = [] \<rparr>"

definition recoDocs :: "raw_doc list" where
  "recoDocs =
     map (\<lambda>c. viewDoc c [''b'', c])
         [''c0'', ''c1'', ''c2'', ''c3'', ''c4'', ''c5'', ''c6'', ''c7'', ''c8'', ''c9'']
     @ [viewDoc ''s'' [''a'', ''b'']]"

definition recoSessions :: "Session list" where
  "recoSessions = map collectSessionEvents recoDocs"

definition sampleScore :: real where
  "sampleScore = 1 / sqrt 11"

subsection \<open>Predicates of the claims\<close>




text \<open>
  A table of recommendations is symmetric when, for all items \<open>a\<close> and \<open>b\<close>, \<open>b\<close> in the
  list of \<open>a\<close> with score \<open>s\<close> means \<open>a\<close> in the list of \<open>b\<close> with score \<open>s\<close>.
\<close>

definition recoSym :: "(string \<times> reco list) list \<Rightarrow> bool" where
  "recoSym acc = (\<forall>a b s la. map_of acc a = Some la \<longrightarrow> \<lparr> rc_item = b, rc_score = s \<rparr> \<in> set la \<longrightarrow>
                    (\<exists>lb. map_of acc b = Some lb \<and> \<lparr> rc_item = a, rc_score = s \<rparr> \<in> set lb))"

text \<open>
  A matrix of counts is 5 by 5 when it has five rows of five entries. A category row is
  well formed when its total is the sum of its three counters and its \<open>carts\<close> are not
  negative.
\<close>

definition square5 :: "int list list \<Rightarrow> bool" where
  "square5 counts = (length counts = 5 \<and> (\<forall>row \<in> set counts. length row = 5))"

definition catRowOk :: "cat_row \<Rightarrow> bool" where
  "catRowOk c = (c_total c = c_views c + c_wish c + c_carts c \<and> 0 \<le> c_carts c)"

section \<open>Properties\<close>

subsection \<open>Apportionment\<close>

lemma sum_list_bumpAt:
  "i < length out \<Longrightarrow> sum_list (bumpAt i out) = sum_list out + 1"
  unfolding bumpAt_def
proof (induction out arbitrary: i)
  case Nil
  then show ?case by simp
next
  case (Cons x xs)
  then show ?case by (cases i) simp_all
qed

lemma length_bumpAt: "length (bumpAt i out) = length out"
  by (simp add: bumpAt_def)

lemma fold_bumpAt_length:
  "length (fold (\<lambda>k out. bumpAt (idx k) out) ks out) = length out"
  by (induction ks arbitrary: out) (simp_all add: length_bumpAt)

lemma fold_bumpAt_sum:
  "(\<And>k. k \<in> set ks \<Longrightarrow> idx k < length out) \<Longrightarrow>
   sum_list (fold (\<lambda>k out. bumpAt (idx k) out) ks out) = sum_list out + int (length ks)"
proof (induction ks arbitrary: out)
  case Nil
  then show ?case by simp
next
  case (Cons k ks)
  have "sum_list (fold (\<lambda>k out. bumpAt (idx k) out) ks (bumpAt (idx k) out))
        = sum_list (bumpAt (idx k) out) + int (length ks)"
    by (rule Cons.IH) (simp add: length_bumpAt Cons.prems)
  then show ?case by (simp add: sum_list_bumpAt Cons.prems)
qed

lemma dt_nonneg_ge0: "w \<in> set (dt_nonneg weights) \<Longrightarrow> 0 \<le> w"
  by (auto simp: dt_nonneg_def)

lemma sum_list_dt_nonneg_ge0: "0 \<le> sum_list (dt_nonneg weights)"
  by (rule sum_list_nonneg) (rule dt_nonneg_ge0)

lemma dt_sum_pos: "0 < dt_sum weights"
  using sum_list_dt_nonneg_ge0 [of weights] by (simp add: dt_sum_def Let_def)

lemma length_dt_raw: "length (dt_raw tot weights) = length weights"
  by (simp add: dt_raw_def dt_nonneg_def)

lemma length_dt_base: "length (dt_base tot weights) = length weights"
  by (simp add: dt_base_def length_dt_raw)

lemma sum_list_dt_raw:
  "sum_list (dt_raw tot weights) = sum_list (dt_nonneg weights) / dt_sum weights * of_int tot"
proof -
  have "sum_list (map (\<lambda>w. w * c) xs) = sum_list xs * c" for c :: real and xs
    by (induction xs) (simp_all add: algebra_simps)
  from this [of "of_int tot / dt_sum weights" "dt_nonneg weights"]
  show ?thesis by (simp add: dt_raw_def)
qed

lemma sum_list_dt_raw_le:
  assumes "0 \<le> tot"
  shows "sum_list (dt_raw tot weights) \<le> of_int tot"
proof (cases "sum_list (dt_nonneg weights) = 0")
  case True
  then show ?thesis using assms by (simp add: sum_list_dt_raw)
next
  case False
  then have "dt_sum weights = sum_list (dt_nonneg weights)"
    by (simp add: dt_sum_def)
  then show ?thesis using False by (simp add: sum_list_dt_raw)
qed

lemma sum_list_floor_le: "of_int (sum_list (map floor xs)) \<le> sum_list (xs :: real list)"
proof (induction xs)
  case Nil
  then show ?case by simp
next
  case (Cons x xs)
  have "real_of_int \<lfloor>x\<rfloor> \<le> x" by (rule of_int_floor_le)
  with Cons show ?case by (simp add: add_mono)
qed

lemma dt_rem_ge0:
  assumes "0 \<le> tot"
  shows "0 \<le> dt_rem tot weights"
proof -
  have "real_of_int (sum_list (dt_base tot weights)) \<le> sum_list (dt_raw tot weights)"
    unfolding dt_base_def by (rule sum_list_floor_le)
  also have "\<dots> \<le> of_int tot" by (rule sum_list_dt_raw_le) (rule assms)
  finally have "sum_list (dt_base tot weights) \<le> tot" by simp
  then show ?thesis by (simp add: dt_rem_def)
qed

lemma set_dt_order:
  "set (dt_order tot weights) =
     (\<lambda>i. (i, dt_raw tot weights ! i - of_int (dt_base tot weights ! i))) ` {0..<length weights}"
  by (simp add: dt_order_def length_dt_raw)

lemma length_dt_order: "length (dt_order tot weights) = length weights"
  by (simp add: dt_order_def length_dt_raw)

lemma dt_order_index:
  assumes "k < length weights"
  shows "fst (dt_order tot weights ! k) < length weights"
proof -
  have "dt_order tot weights ! k \<in> set (dt_order tot weights)"
    using assms by (simp add: length_dt_order)
  then show ?thesis unfolding set_dt_order by auto
qed

lemma distributeToTotal_returns:
  assumes "weights \<noteq> []"
  shows "distributeToTotal tot weights =
         Inr (fold (\<lambda>k out. bumpAt (fst (dt_order tot weights ! (k mod length weights))) out)
               [0..<nat (dt_rem tot weights)] (dt_base tot weights))"
proof -
  have "dt_order tot weights \<noteq> []"
    using assms length_dt_order [of tot weights] by auto
  then show ?thesis by (simp add: distributeToTotal_def Let_def length_dt_order)
qed

lemma distributeToTotal_sum:
  assumes "weights \<noteq> []" and "0 \<le> tot" and "distributeToTotal tot weights = Inr out"
  shows "sum_list out = tot"
proof -
  let ?idx = "\<lambda>k. fst (dt_order tot weights ! (k mod length weights))"
  have out: "out = fold (\<lambda>k out. bumpAt (?idx k) out) [0..<nat (dt_rem tot weights)]
                     (dt_base tot weights)"
    using distributeToTotal_returns [OF assms(1), of tot] assms(3) by simp
  have idx: "?idx k < length (dt_base tot weights)" for k
    using assms(1) by (simp add: length_dt_base dt_order_index)
  have "sum_list out = sum_list (dt_base tot weights) + int (length [0..<nat (dt_rem tot weights)])"
    unfolding out by (rule fold_bumpAt_sum) (rule idx)
  also have "\<dots> = sum_list (dt_base tot weights) + dt_rem tot weights"
    using dt_rem_ge0 [OF assms(2), of weights] by simp
  also have "\<dots> = tot" by (simp add: dt_rem_def)
  finally show ?thesis .
qed

lemma sum_list_frac_less:
  "xs \<noteq> [] \<Longrightarrow> sum_list xs - real_of_int (sum_list (map floor xs)) < real (length xs)"
proof (induction xs)
  case Nil
  then show ?case by simp
next
  case (Cons x xs)
  have x: "x - real_of_int \<lfloor>x\<rfloor> < 1" by linarith
  show ?case
  proof (cases "xs = []")
    case True
    then show ?thesis using x by simp
  next
    case False
    then have "sum_list xs - real_of_int (sum_list (map floor xs)) < real (length xs)"
      by (rule Cons.IH)
    then show ?thesis using x by simp
  qed
qed

lemma fold_bumpAt_distinct:
  "distinct js \<Longrightarrow> j < length out \<Longrightarrow>
   fold bumpAt js out ! j = out ! j + (if j \<in> set js then 1 else 0)"
proof (induction js arbitrary: out)
  case Nil
  then show ?case by simp
next
  case (Cons a js)
  have "fold bumpAt js (bumpAt a out) ! j = bumpAt a out ! j + (if j \<in> set js then 1 else 0)"
    using Cons.prems by (intro Cons.IH) (simp_all add: length_bumpAt)
  moreover have "bumpAt a out ! j = out ! j + (if j = a then 1 else 0)"
    using Cons.prems(2) by (simp add: bumpAt_def)
  ultimately show ?case using Cons.prems(1) by auto
qed

subsection \<open>Double precision\<close>

text \<open>The exponent brackets the number, and one rounding moves it by at most \<open>u64\<close> of itself.\<close>

lemma expo_bounds:
  assumes "0 < x"
  shows "2 powi (expo x) \<le> x" and "x < 2 powi (expo x + 1)"
proof -
  have "2 powi (expo x) \<le> x \<and> x < 2 powi (expo x + 1)"
  proof (cases "1 \<le> x")
    case True
    define n where "n = \<lfloor>x\<rfloor>"
    have n: "0 < n" using True by (simp add: n_def)
    have b: "1 \<le> bitlen n" using n by (simp add: bitlen_alt_def)
    have e: "expo x = bitlen n - 1" using True by (simp add: expo_def n_def)
    from bitlen_bounds [OF n]
    have lo: "2 ^ nat (bitlen n - 1) \<le> n" and hi: "n < 2 ^ nat (bitlen n)" by simp_all
    have "(2::real) powi (expo x) = real_of_int (2 ^ nat (bitlen n - 1))"
      using b by (simp add: e power_int_def)
    also have "\<dots> \<le> real_of_int n" using lo by (simp only: of_int_le_iff)
    also have "\<dots> \<le> x" by (simp add: n_def)
    finally have 1: "2 powi (expo x) \<le> x" .
    have "n + 1 \<le> 2 ^ nat (bitlen n)" using hi by simp
    then have "real_of_int (n + 1) \<le> real_of_int (2 ^ nat (bitlen n))" by (simp only: of_int_le_iff)
    moreover have "x < real_of_int (n + 1)" by (simp add: n_def)
    moreover have "(2::real) powi (expo x + 1) = real_of_int (2 ^ nat (bitlen n))"
      using b by (simp add: e power_int_def)
    ultimately have 2: "x < 2 powi (expo x + 1)" by simp
    show ?thesis using 1 2 by simp
  next
    case False
    define y where "y = 1 / x"
    define m where "m = \<lceil>y\<rceil> - 1"
    have y: "1 < y" using False assms by (simp add: y_def)
    have m: "0 < m" using y by (simp add: m_def)
    have my: "real_of_int m < y" "y \<le> real_of_int m + 1"
      by (simp_all add: m_def) linarith+
    have b: "1 \<le> bitlen m" using m by (simp add: bitlen_alt_def)
    have e: "expo x = - bitlen m" using False by (simp add: expo_def m_def y_def)
    from bitlen_bounds [OF m]
    have lo: "2 ^ nat (bitlen m - 1) \<le> m" and hi: "m < 2 ^ nat (bitlen m)" by simp_all
    have "m + 1 \<le> 2 ^ nat (bitlen m)" using hi by simp
    then have "real_of_int (m + 1) \<le> real_of_int (2 ^ nat (bitlen m))" by (simp only: of_int_le_iff)
    then have yle: "y \<le> 2 ^ nat (bitlen m)" using my(2) by simp
    have "real_of_int (2 ^ nat (bitlen m - 1)) \<le> real_of_int m" using lo by (simp only: of_int_le_iff)
    then have "(2::real) ^ nat (bitlen m - 1) \<le> real_of_int m" by simp
    then have ygt: "2 ^ nat (bitlen m - 1) < y" using my(1) by linarith
    have p1: "(2::real) powi (expo x) = 1 / 2 ^ nat (bitlen m)"
      using b by (simp add: e power_int_def field_simps)
    have p2: "(2::real) powi (expo x + 1) = 1 / 2 ^ nat (bitlen m - 1)"
    proof -
      have "expo x + 1 = - (bitlen m - 1)" by (simp add: e)
      then have "(2::real) powi (expo x + 1) = inverse (2 powi (bitlen m - 1))"
        by (simp only: power_int_minus)
      also have "(2::real) powi (bitlen m - 1) = 2 ^ nat (bitlen m - 1)"
        using b by (simp add: power_int_def)
      finally show ?thesis by (simp add: inverse_eq_divide)
    qed
    have x: "x = 1 / y" using assms by (simp add: y_def)
    have "1 / 2 ^ nat (bitlen m) \<le> 1 / y"
      using yle y by (simp add: frac_le)
    then have 1: "2 powi (expo x) \<le> x"
      by (simp only: p1 x [symmetric])
    have "1 / y < 1 / 2 ^ nat (bitlen m - 1)"
      using ygt by (simp add: frac_less2)
    then have 2: "x < 2 powi (expo x + 1)"
      by (simp only: p2 x [symmetric])
    show ?thesis using 1 2 by simp
  qed
  then show "2 powi (expo x) \<le> x" and "x < 2 powi (expo x + 1)" by simp_all
qed

lemma roundEven_err: "\<bar>real_of_int (roundEven m) - m\<bar> \<le> 1 / 2"
  unfolding roundEven_def Let_def by (auto; linarith)

lemma roundEven_ge0: "0 \<le> m \<Longrightarrow> 0 \<le> roundEven m"
  unfolding roundEven_def Let_def by auto

lemma fl64_nonneg: "0 \<le> x \<Longrightarrow> 0 \<le> fl64 x"
  by (simp add: fl64_def Let_def roundEven_ge0)

lemma fl64_err:
  assumes "0 \<le> x"
  shows "\<bar>fl64 x - x\<bar> \<le> x / 2 ^ 53"
proof (cases "x = 0")
  case True
  then show ?thesis by (simp add: fl64_def)
next
  case False
  then have pos: "0 < x" using assms by simp
  define p :: real where "p = 2 powi (expo x - 52)"
  have p: "0 < p" by (simp add: p_def)
  have pk: "2 powi (expo x) = 2 ^ 52 * p"
    by (simp add: p_def power_int_diff)
  have fl: "fl64 x = real_of_int (roundEven (x / p)) * p"
    using pos by (simp add: fl64_def Let_def p_def)
  have "fl64 x - x = (real_of_int (roundEven (x / p)) - x / p) * p"
    using p by (simp add: fl left_diff_distrib)
  then have "\<bar>fl64 x - x\<bar> = \<bar>real_of_int (roundEven (x / p)) - x / p\<bar> * p"
    using p by (simp add: abs_mult)
  also have "\<dots> \<le> 1 / 2 * p"
    using p roundEven_err [of "x / p"] by (intro mult_right_mono) simp_all
  also have "\<dots> = 2 powi (expo x) / 2 ^ 53" by (simp add: pk)
  also have "\<dots> \<le> x / 2 ^ 53"
    using expo_bounds(1) [OF pos] by (simp add: divide_right_mono)
  finally show ?thesis .
qed

lemma fl64_bounds:
  assumes "0 \<le> x"
  shows "x * (1 - 1 / 2 ^ 53) \<le> fl64 x" and "fl64 x \<le> x * (1 + 1 / 2 ^ 53)"
proof -
  have "\<bar>fl64 x - x\<bar> \<le> x * (1 / 2 ^ 53)" using fl64_err [OF assms] by simp
  then have "fl64 x - x \<le> x * (1 / 2 ^ 53)" and "x - fl64 x \<le> x * (1 / 2 ^ 53)"
    by linarith+
  then show "x * (1 - 1 / 2 ^ 53) \<le> fl64 x" and "fl64 x \<le> x * (1 + 1 / 2 ^ 53)"
    by (simp_all only: right_diff_distrib distrib_left mult_1_right)
qed

lemma u64_pos: "0 < u64" "u64 < 1"
  by (simp_all add: u64_def)

lemma fl64_u64:
  assumes "0 \<le> x"
  shows "x * (1 - u64) \<le> fl64 x" and "fl64 x \<le> x * (1 + u64)"
  using fl64_bounds [OF assms] by (simp_all add: u64_def)

lemma fold_fl64_bounds:
  assumes "\<And>w. w \<in> set ws \<Longrightarrow> 0 \<le> w" and "0 \<le> a"
  shows "(a + sum_list ws) * (1 - u64) ^ length ws \<le> fold (\<lambda>b a. fl64 (a + b)) ws a \<and>
         fold (\<lambda>b a. fl64 (a + b)) ws a \<le> (a + sum_list ws) * (1 + u64) ^ length ws"
  using assms
proof (induction ws arbitrary: a)
  case Nil
  then show ?case by simp
next
  case (Cons w ws)
  let ?a = "fl64 (a + w)"
  have w: "0 \<le> w" and a: "0 \<le> a + w" using Cons.prems by simp_all
  have s: "0 \<le> sum_list ws" using Cons.prems by (intro sum_list_nonneg) simp
  have a': "0 \<le> ?a" using a by (rule fl64_nonneg)
  have IH: "(?a + sum_list ws) * (1 - u64) ^ length ws \<le> fold (\<lambda>b a. fl64 (a + b)) ws ?a \<and>
            fold (\<lambda>b a. fl64 (a + b)) ws ?a \<le> (?a + sum_list ws) * (1 + u64) ^ length ws"
    using Cons.prems a' by (intro Cons.IH) simp_all
  have lo: "(a + w + sum_list ws) * (1 - u64) \<le> ?a + sum_list ws"
  proof -
    have "(a + w + sum_list ws) * (1 - u64) = (a + w) * (1 - u64) + sum_list ws * (1 - u64)"
      by (simp add: algebra_simps)
    also have "\<dots> \<le> ?a + sum_list ws * (1 - u64)"
      using fl64_u64(1) [OF a] by simp
    also have "\<dots> \<le> ?a + sum_list ws"
      using s u64_pos by (simp add: mult_left_le)
    finally show ?thesis .
  qed
  have hi: "?a + sum_list ws \<le> (a + w + sum_list ws) * (1 + u64)"
  proof -
    have "?a + sum_list ws \<le> (a + w) * (1 + u64) + sum_list ws"
      using fl64_u64(2) [OF a] by simp
    also have "\<dots> \<le> (a + w) * (1 + u64) + sum_list ws * (1 + u64)"
      using s u64_pos by (simp add: mult_left_le algebra_simps)
    also have "\<dots> = (a + w + sum_list ws) * (1 + u64)"
      by (simp add: algebra_simps)
    finally show ?thesis .
  qed
  have p1: "0 \<le> (1 - u64) ^ length ws" and p2: "0 \<le> (1 + u64) ^ length ws"
    using u64_pos by simp_all
  have "(a + sum_list (w # ws)) * (1 - u64) ^ length (w # ws)
        = ((a + w + sum_list ws) * (1 - u64)) * (1 - u64) ^ length ws"
    by (simp add: algebra_simps)
  also have "\<dots> \<le> (?a + sum_list ws) * (1 - u64) ^ length ws"
    using lo p1 by (rule mult_right_mono)
  also have "\<dots> \<le> fold (\<lambda>b a. fl64 (a + b)) ws ?a" using IH by simp
  finally have 1: "(a + sum_list (w # ws)) * (1 - u64) ^ length (w # ws)
                   \<le> fold (\<lambda>b a. fl64 (a + b)) (w # ws) a" by simp
  have "fold (\<lambda>b a. fl64 (a + b)) ws ?a \<le> (?a + sum_list ws) * (1 + u64) ^ length ws"
    using IH by simp
  also have "\<dots> \<le> ((a + w + sum_list ws) * (1 + u64)) * (1 + u64) ^ length ws"
    using hi p2 by (rule mult_right_mono)
  also have "\<dots> = (a + sum_list (w # ws)) * (1 + u64) ^ length (w # ws)"
    by (simp add: algebra_simps)
  finally have 2: "fold (\<lambda>b a. fl64 (a + b)) (w # ws) a
                   \<le> (a + sum_list (w # ws)) * (1 + u64) ^ length (w # ws)" by simp
  show ?case using 1 2 by blast
qed

lemma share_bounds:
  assumes "0 \<le> w" and "0 < s" and "0 \<le> t"
  shows "w / s * t * (1 - u64)\<^sup>2 \<le> fl64 (fl64 (w / s) * t)"
    and "fl64 (fl64 (w / s) * t) \<le> w / s * t * (1 + u64)\<^sup>2"
proof -
  have q: "0 \<le> w / s" using assms by simp
  have f: "0 \<le> fl64 (w / s)" using q by (rule fl64_nonneg)
  have ft: "0 \<le> fl64 (w / s) * t" using f assms(3) by simp
  have u: "0 \<le> 1 - u64" "0 \<le> 1 + u64" using u64_pos by simp_all
  have "w / s * t * (1 - u64)\<^sup>2 = (w / s * (1 - u64)) * t * (1 - u64)"
    by (simp add: power2_eq_square ac_simps)
  also have "\<dots> \<le> fl64 (w / s) * t * (1 - u64)"
    using fl64_u64(1) [OF q] assms(3) u by (intro mult_right_mono) simp_all
  also have "\<dots> \<le> fl64 (fl64 (w / s) * t)" by (rule fl64_u64(1) [OF ft])
  finally show "w / s * t * (1 - u64)\<^sup>2 \<le> fl64 (fl64 (w / s) * t)" .
  have "fl64 (fl64 (w / s) * t) \<le> fl64 (w / s) * t * (1 + u64)" by (rule fl64_u64(2) [OF ft])
  also have "\<dots> \<le> (w / s * (1 + u64)) * t * (1 + u64)"
    using fl64_u64(2) [OF q] assms(3) u by (intro mult_right_mono) simp_all
  also have "\<dots> = w / s * t * (1 + u64)\<^sup>2"
    by (simp add: power2_eq_square ac_simps)
  finally show "fl64 (fl64 (w / s) * t) \<le> w / s * t * (1 + u64)\<^sup>2" .
qed

lemma sum_share_bounds:
  assumes "\<And>w. w \<in> set ws \<Longrightarrow> 0 \<le> w" and "0 < s" and "0 \<le> t"
  shows "sum_list ws / s * t * (1 - u64)\<^sup>2 \<le> sum_list (map (\<lambda>w. fl64 (fl64 (w / s) * t)) ws)"
    and "sum_list (map (\<lambda>w. fl64 (fl64 (w / s) * t)) ws) \<le> sum_list ws / s * t * (1 + u64)\<^sup>2"
proof -
  have c: "sum_list (map (\<lambda>w. w / s * t * c) ws) = sum_list ws / s * t * c" for c
    by (induction ws) (simp_all add: algebra_simps add_divide_distrib)
  have "sum_list (map (\<lambda>w. w / s * t * (1 - u64)\<^sup>2) ws)
        \<le> sum_list (map (\<lambda>w. fl64 (fl64 (w / s) * t)) ws)"
    using assms by (intro sum_list_mono share_bounds(1)) simp_all
  then show "sum_list ws / s * t * (1 - u64)\<^sup>2 \<le> sum_list (map (\<lambda>w. fl64 (fl64 (w / s) * t)) ws)"
    by (simp only: c)
  have "sum_list (map (\<lambda>w. fl64 (fl64 (w / s) * t)) ws)
        \<le> sum_list (map (\<lambda>w. w / s * t * (1 + u64)\<^sup>2) ws)"
    using assms by (intro sum_list_mono share_bounds(2)) simp_all
  then show "sum_list (map (\<lambda>w. fl64 (fl64 (w / s) * t)) ws) \<le> sum_list ws / s * t * (1 + u64)\<^sup>2"
    by (simp only: c)
qed

lemma budget:
  assumes "0 \<le> t" and "(t + 1) * (int n + 3) \<le> 2 ^ 52"
  shows "(real_of_int t + 1) * (real n + 3) * u64 \<le> 1 / 2"
proof -
  have "real_of_int ((t + 1) * (int n + 3)) \<le> real_of_int (2 ^ 52)"
    using assms(2) by (simp only: of_int_le_iff)
  then have "(real_of_int t + 1) * (real n + 3) \<le> 2 ^ 52" by simp
  then have "(real_of_int t + 1) * (real n + 3) * u64 \<le> 2 ^ 52 * u64"
    using u64_pos by (intro mult_right_mono) simp_all
  then show ?thesis by (simp add: u64_def)
qed

lemma pow_one_minus: "1 - real n * u64 \<le> (1 - u64) ^ n"
  using Bernoulli_inequality [of "- u64" n] u64_pos by simp

lemma pow_one_plus:
  "real n * u64 \<le> 1 / 2 \<Longrightarrow> (1 + u64) ^ n \<le> 1 + 2 * real n * u64"
proof (induction n)
  case 0
  then show ?case by simp
next
  case (Suc n)
  have nu: "real n * u64 \<le> 1 / 2" using Suc.prems u64_pos by (simp add: algebra_simps)
  have "(1 + u64) ^ Suc n = (1 + u64) ^ n * (1 + u64)" by simp
  also have "\<dots> \<le> (1 + 2 * real n * u64) * (1 + u64)"
    using Suc.IH [OF nu] u64_pos by (intro mult_right_mono) simp_all
  also have "\<dots> = 1 + 2 * real n * u64 + u64 + (2 * (real n * u64)) * u64"
    by (simp add: algebra_simps)
  also have "\<dots> \<le> 1 + 2 * real n * u64 + u64 + 1 * u64"
    using nu u64_pos by (intro add_left_mono mult_right_mono) simp_all
  also have "\<dots> = 1 + 2 * real (Suc n) * u64" by (simp add: algebra_simps)
  finally show ?case .
qed

lemma upper_aux:
  assumes "0 \<le> t" and "(t + 1) * (int n + 3) \<le> 2 ^ 52"
  shows "real_of_int t * (1 + u64)\<^sup>2 < (real_of_int t + 1) * (1 - u64) ^ n"
proof -
  define T where "T = real_of_int t"
  define N where "N = real n"
  have T: "0 \<le> T" using assms(1) by (simp add: T_def)
  have N: "0 \<le> N" by (simp add: N_def)
  have b: "(T + 1) * (N + 3) * u64 \<le> 1 / 2"
    using budget [OF assms] by (simp add: T_def N_def)
  have u2: "u64 * u64 \<le> u64" using u64_pos by (simp add: mult_left_le)
  have "T * (1 + u64)\<^sup>2 = T * (1 + 2 * u64 + u64 * u64)"
    by (simp add: power2_eq_square algebra_simps)
  also have "\<dots> \<le> T * (1 + 3 * u64)"
    using T u2 by (intro mult_left_mono) simp_all
  also have "\<dots> < (T + 1) * (1 - N * u64)"
  proof -
    have "(T + 1) * (1 - N * u64) - T * (1 + 3 * u64) = 1 - (T * N + N + 3 * T) * u64"
      by (simp add: algebra_simps)
    moreover have "(T * N + N + 3 * T) * u64 \<le> (T + 1) * (N + 3) * u64"
      using T N u64_pos by (intro mult_right_mono) (simp_all add: algebra_simps)
    ultimately show ?thesis using b by linarith
  qed
  also have "\<dots> \<le> (T + 1) * (1 - u64) ^ n"
    using T pow_one_minus [of n] by (intro mult_left_mono) (simp_all add: N_def)
  finally show ?thesis by (simp add: T_def)
qed

lemma lower_aux:
  assumes "0 \<le> t" and "(t + 1) * (int n + 3) \<le> 2 ^ 52"
  shows "(real_of_int t - 1) * (1 + u64) ^ n < real_of_int t * (1 - u64)\<^sup>2"
proof (cases "t = 0")
  case True
  have "0 < (1 + u64) ^ n" using u64_pos by simp
  then show ?thesis using True by simp
next
  case False
  define T where "T = real_of_int t"
  define N where "N = real n"
  have T: "1 \<le> T" using assms(1) False by (simp add: T_def)
  have N: "0 \<le> N" by (simp add: N_def)
  have b: "(T + 1) * (N + 3) * u64 \<le> 1 / 2"
    using budget [OF assms] by (simp add: T_def N_def)
  have "N * u64 \<le> (T + 1) * (N + 3) * u64"
    using T N u64_pos by (intro mult_right_mono) (simp_all add: algebra_simps)
  then have nu: "N * u64 \<le> 1 / 2" using b by linarith
  have "(T - 1) * (1 + u64) ^ n \<le> (T - 1) * (1 + 2 * N * u64)"
    using T pow_one_plus [of n] nu by (intro mult_left_mono) (simp_all add: N_def)
  also have "\<dots> < T * (1 - 2 * u64)"
  proof -
    have "T * (1 - 2 * u64) - (T - 1) * (1 + 2 * N * u64)
          = 1 + 2 * (N * u64) - 2 * ((T * N + T) * u64)"
      by (simp add: algebra_simps)
    moreover have "(T * N + T) * u64 < (T + 1) * (N + 3) * u64"
      using T N u64_pos by (intro mult_strict_right_mono) (simp_all add: algebra_simps)
    moreover have "0 \<le> N * u64" using N u64_pos by simp
    ultimately show ?thesis using b by linarith
  qed
  also have "\<dots> \<le> T * (1 - u64)\<^sup>2"
  proof -
    have "(1 - u64)\<^sup>2 = 1 - 2 * u64 + u64 * u64" by (simp add: power2_eq_square algebra_simps)
    moreover have "0 \<le> u64 * u64" by simp
    ultimately have "1 - 2 * u64 \<le> (1 - u64)\<^sup>2" by linarith
    then show ?thesis using T by (intro mult_left_mono) simp_all
  qed
  finally show ?thesis by (simp add: T_def)
qed

subsection \<open>The apportionment in double precision: the units left\<close>

lemma length_dt64_raw: "length (dt64_raw tot weights) = length weights"
  by (simp add: dt64_raw_def dt_nonneg_def)

lemma length_dt64_base: "length (dt64_base tot weights) = length weights"
  by (simp add: dt64_base_def length_dt64_raw)

lemma fold_fl64_ge0:
  "(\<And>w. w \<in> set ws \<Longrightarrow> 0 \<le> w) \<Longrightarrow> 0 \<le> a \<Longrightarrow> 0 \<le> fold (\<lambda>b a. fl64 (a + b)) ws a"
proof (induction ws arbitrary: a)
  case Nil
  then show ?case by simp
next
  case (Cons w ws)
  have "0 \<le> fl64 (a + w)" using Cons.prems by (intro fl64_nonneg) simp
  then show ?case using Cons.prems by (simp add: Cons.IH)
qed

lemma dt64_sum_pos: "0 < dt64_sum weights"
proof -
  have "0 \<le> fold (\<lambda>b a. fl64 (a + b)) (dt_nonneg weights) 0"
    by (rule fold_fl64_ge0) (simp_all add: dt_nonneg_ge0)
  then show ?thesis by (simp add: dt64_sum_def Let_def)
qed

lemma dt64_raw_ge0:
  assumes "0 \<le> tot" and "i < length weights"
  shows "0 \<le> dt64_raw tot weights ! i"
proof -
  have w: "0 \<le> dt_nonneg weights ! i" using assms(2) by (simp add: dt_nonneg_def)
  have "0 \<le> dt_nonneg weights ! i / dt64_sum weights"
    using w dt64_sum_pos [of weights] by simp
  then have "0 \<le> fl64 (dt_nonneg weights ! i / dt64_sum weights) * of_int tot"
    using assms(1) by (simp add: fl64_nonneg)
  then have "0 \<le> fl64 (fl64 (dt_nonneg weights ! i / dt64_sum weights) * of_int tot)"
    by (rule fl64_nonneg)
  then show ?thesis using assms(2) by (simp add: dt64_raw_def dt_nonneg_def)
qed

lemma dt64_base_ge0:
  assumes "0 \<le> tot" and "i < length weights"
  shows "0 \<le> dt64_base tot weights ! i"
  using dt64_raw_ge0 [OF assms] assms(2) by (simp add: dt64_base_def length_dt64_raw)

text \<open>The sum of the shares is within one unit of the total.\<close>

lemma sum_list_dt64_raw:
  assumes pos: "\<exists>w \<in> set weights. 0 < w" and tot: "0 \<le> tot"
    and small: "(tot + 1) * (int (length weights) + 3) \<le> 2 ^ 52"
  shows "real_of_int tot - 1 < sum_list (dt64_raw tot weights)"
    and "sum_list (dt64_raw tot weights) < real_of_int tot + 1"
proof -
  let ?ws = "dt_nonneg weights" and ?n = "length weights"
  let ?F = "fold (\<lambda>b a. fl64 (a + b)) ?ws 0"
  let ?R = "sum_list (dt64_raw tot weights)"
  define sigma where "sigma = sum_list ?ws"
  define S where "S = dt64_sum weights"
  define T where "T = real_of_int tot"
  have ge: "\<And>w. w \<in> set ?ws \<Longrightarrow> 0 \<le> w" by (rule dt_nonneg_ge0)
  obtain w where w: "w \<in> set weights" "0 < w" using pos by blast
  then have "w \<in> set ?ws" by (force simp: dt_nonneg_def)
  then have "w \<le> sigma" unfolding sigma_def using ge by (simp add: member_le_sum_list)
  then have sigma: "0 < sigma" using w(2) by simp
  have len: "length ?ws = ?n" by (simp add: dt_nonneg_def)
  have um: "0 < (1 - u64) ^ ?n" and up: "0 < (1 + u64) ^ ?n" using u64_pos by simp_all
  from fold_fl64_bounds [of ?ws 0, OF ge]
  have F: "sigma * (1 - u64) ^ ?n \<le> ?F" "?F \<le> sigma * (1 + u64) ^ ?n"
    by (simp_all add: sigma_def len)
  have "0 < sigma * (1 - u64) ^ ?n" using sigma um by simp
  then have "0 < ?F" using F(1) by linarith
  then have S: "S = ?F" by (simp add: S_def dt64_sum_def Let_def)
  have Spos: "0 < S" unfolding S_def by (rule dt64_sum_pos)
  have T: "0 \<le> T" using tot by (simp add: T_def)
  have R: "?R = sum_list (map (\<lambda>w. fl64 (fl64 (w / S) * T)) ?ws)"
    by (simp add: dt64_raw_def S_def T_def)
  have q: "0 \<le> sigma / S * T" using sigma Spos T by simp
  have lo: "sigma / S * T * (1 - u64)\<^sup>2 \<le> ?R" and hi: "?R \<le> sigma / S * T * (1 + u64)\<^sup>2"
    unfolding R sigma_def using sum_share_bounds [OF ge Spos T] by simp_all
  have r1: "sigma / S * (1 - u64) ^ ?n \<le> 1"
    using F(1) Spos by (simp add: S field_simps)
  have r2: "1 \<le> sigma / S * (1 + u64) ^ ?n"
    using F(2) Spos by (simp add: S field_simps)
  have "?R * (1 - u64) ^ ?n \<le> (sigma / S * T * (1 + u64)\<^sup>2) * (1 - u64) ^ ?n"
    using hi um by (intro mult_right_mono) simp_all
  also have "\<dots> = (sigma / S * (1 - u64) ^ ?n) * (T * (1 + u64)\<^sup>2)"
    by (simp add: ac_simps)
  also have "\<dots> \<le> 1 * (T * (1 + u64)\<^sup>2)"
    using r1 T by (intro mult_right_mono) simp_all
  also have "\<dots> < (T + 1) * (1 - u64) ^ ?n"
    using upper_aux [OF tot small] by (simp add: T_def)
  finally have "?R * (1 - u64) ^ ?n < (T + 1) * (1 - u64) ^ ?n" .
  then show "?R < real_of_int tot + 1" using um by (simp add: T_def)
  have "(T - 1) * (1 + u64) ^ ?n < 1 * (T * (1 - u64)\<^sup>2)"
    using lower_aux [OF tot small] by (simp add: T_def)
  also have "\<dots> \<le> (sigma / S * (1 + u64) ^ ?n) * (T * (1 - u64)\<^sup>2)"
    using r2 T by (intro mult_right_mono) simp_all
  also have "\<dots> = (sigma / S * T * (1 - u64)\<^sup>2) * (1 + u64) ^ ?n"
    by (simp add: ac_simps)
  also have "\<dots> \<le> ?R * (1 + u64) ^ ?n"
    using lo up by (intro mult_right_mono) simp_all
  finally have "(T - 1) * (1 + u64) ^ ?n < ?R * (1 + u64) ^ ?n" .
  then show "real_of_int tot - 1 < ?R" using up by (simp add: T_def)
qed

lemma dt64_rem_bounds:
  assumes ne: "weights \<noteq> []" and pos: "\<exists>w \<in> set weights. 0 < w" and tot: "0 \<le> tot"
    and small: "(tot + 1) * (int (length weights) + 3) \<le> 2 ^ 52"
  shows "0 \<le> dt64_rem tot weights" and "dt64_rem tot weights \<le> int (length weights)"
proof -
  let ?raw = "dt64_raw tot weights"
  have "real_of_int (sum_list (dt64_base tot weights)) \<le> sum_list ?raw"
    unfolding dt64_base_def by (rule sum_list_floor_le)
  also have "\<dots> < real_of_int tot + 1" by (rule sum_list_dt64_raw(2) [OF pos tot small])
  finally have "real_of_int (sum_list (dt64_base tot weights)) < real_of_int (tot + 1)" by simp
  then have "sum_list (dt64_base tot weights) < tot + 1" by (simp only: of_int_less_iff)
  then show "0 \<le> dt64_rem tot weights" by (simp add: dt64_rem_def)
  have "?raw \<noteq> []" using ne length_dt64_raw [of tot weights] by auto
  then have "sum_list ?raw - real_of_int (sum_list (map floor ?raw)) < real (length ?raw)"
    by (rule sum_list_frac_less)
  then have "sum_list ?raw - real (length weights) < real_of_int (sum_list (dt64_base tot weights))"
    by (simp add: dt64_base_def length_dt64_raw)
  moreover have "real_of_int tot - 1 < sum_list ?raw" by (rule sum_list_dt64_raw(1) [OF pos tot small])
  ultimately have "real_of_int (tot - 1 - int (length weights)) < real_of_int (sum_list (dt64_base tot weights))"
    by simp
  then have "tot - 1 - int (length weights) < sum_list (dt64_base tot weights)"
    by (simp only: of_int_less_iff)
  then show "dt64_rem tot weights \<le> int (length weights)" by (simp add: dt64_rem_def)
qed

lemma set_dt64_order:
  "fst ` set (dt64_order tot weights) = {0..<length weights}"
  by (simp add: dt64_order_def length_dt64_raw image_image)

lemma length_dt64_order: "length (dt64_order tot weights) = length weights"
  by (simp add: dt64_order_def length_dt64_raw)

lemma dt64_order_index:
  assumes "k < length weights"
  shows "fst (dt64_order tot weights ! k) < length weights"
proof -
  have "dt64_order tot weights ! k \<in> set (dt64_order tot weights)"
    using assms by (simp add: length_dt64_order)
  then have "fst (dt64_order tot weights ! k) \<in> fst ` set (dt64_order tot weights)"
    by (rule imageI)
  then show ?thesis by (simp add: set_dt64_order)
qed

lemma distinct_dt64_order: "distinct (map fst (dt64_order tot weights))"
proof -
  define xs where
    "xs = map (\<lambda>i. (i, fl64 (dt64_raw tot weights ! i - real_of_int (dt64_base tot weights ! i))))
            [0..<length (dt64_raw tot weights)]"
  have "map fst xs = [0..<length (dt64_raw tot weights)]"
    by (simp add: xs_def comp_def)
  then have "distinct (map fst xs)" by simp
  then have "distinct xs \<and> inj_on fst (set xs)" by (simp add: distinct_map)
  then have "distinct (map fst (sort_key (\<lambda>(i, frac). - frac) xs))"
    by (simp add: distinct_map)
  then show ?thesis by (simp add: dt64_order_def xs_def)
qed

lemma distributeToTotal64_returns:
  assumes "weights \<noteq> []"
  shows "distributeToTotal64 tot weights =
         Inr (fold (\<lambda>k out. bumpAt (fst (dt64_order tot weights ! (k mod length weights))) out)
               [0..<nat (dt64_rem tot weights)] (dt64_base tot weights))"
proof -
  have "dt64_order tot weights \<noteq> []"
    using assms length_dt64_order [of tot weights] by auto
  then show ?thesis by (simp add: distributeToTotal64_def Let_def length_dt64_order)
qed

lemma distributeToTotal64_sum:
  assumes "weights \<noteq> []" and "0 \<le> dt64_rem tot weights"
    and "distributeToTotal64 tot weights = Inr out"
  shows "sum_list out = tot"
proof -
  let ?idx = "\<lambda>k. fst (dt64_order tot weights ! (k mod length weights))"
  have out: "out = fold (\<lambda>k out. bumpAt (?idx k) out) [0..<nat (dt64_rem tot weights)]
                     (dt64_base tot weights)"
    using distributeToTotal64_returns [OF assms(1), of tot] assms(3) by simp
  have idx: "?idx k < length (dt64_base tot weights)" for k
    using assms(1) by (simp add: length_dt64_base dt64_order_index)
  have "sum_list out = sum_list (dt64_base tot weights) + int (length [0..<nat (dt64_rem tot weights)])"
    unfolding out by (rule fold_bumpAt_sum) (rule idx)
  also have "\<dots> = sum_list (dt64_base tot weights) + dt64_rem tot weights"
    using assms(2) by simp
  also have "\<dots> = tot" by (simp add: dt64_rem_def)
  finally show ?thesis .
qed

lemma distributeToTotal64_one_each:
  assumes "weights \<noteq> []" and "0 \<le> dt64_rem tot weights"
    and "dt64_rem tot weights \<le> int (length weights)"
    and "distributeToTotal64 tot weights = Inr out" and "i < length weights"
  shows "out ! i = dt64_base tot weights ! i +
           (if i \<in> fst ` set (take (nat (dt64_rem tot weights)) (dt64_order tot weights)) then 1 else 0)"
proof -
  let ?n = "length weights" and ?r = "nat (dt64_rem tot weights)" and ?ord = "dt64_order tot weights"
  have r: "?r \<le> ?n" using assms(3) by linarith
  have "map (\<lambda>k. fst (?ord ! (k mod ?n))) [0..<?r] = map (\<lambda>k. fst (?ord ! k)) [0..<?r]"
    using r by simp
  also have "\<dots> = map fst (take ?r ?ord)"
    using r by (intro nth_equalityI) (simp_all add: length_dt64_order)
  finally have idx: "map (\<lambda>k. fst (?ord ! (k mod ?n))) [0..<?r] = map fst (take ?r ?ord)" .
  have "out = fold (\<lambda>k out. bumpAt (fst (?ord ! (k mod ?n))) out) [0..<?r] (dt64_base tot weights)"
    using distributeToTotal64_returns [OF assms(1), of tot] assms(4) by simp
  also have "\<dots> = fold bumpAt (map (\<lambda>k. fst (?ord ! (k mod ?n))) [0..<?r]) (dt64_base tot weights)"
    by (simp add: fold_map comp_def)
  finally have out: "out = fold bumpAt (map fst (take ?r ?ord)) (dt64_base tot weights)"
    by (simp only: idx)
  have "distinct (map fst (take ?r ?ord))"
    using distinct_dt64_order [of tot weights] by (simp add: take_map [symmetric] distinct_take)
  then have "out ! i = dt64_base tot weights ! i + (if i \<in> set (map fst (take ?r ?ord)) then 1 else 0)"
    unfolding out using assms(5) by (intro fold_bumpAt_distinct) (simp_all add: length_dt64_base)
  then show ?thesis by simp
qed

text \<open>Dealing \<open>m\<close> units round-robin over \<open>n\<close> entries.\<close>

lemma nth_bumpAt: "i < length out \<Longrightarrow> bumpAt j out ! i = out ! i + (if i = j then 1 else 0)"
  by (simp add: bumpAt_def nth_list_update)

lemma round_robin:
  assumes "0 < n"
  shows "fold (\<lambda>k out. bumpAt (k mod n) out) [0..<m] (replicate n 0)
         = map (\<lambda>i. int (m div n) + (if i < m mod n then 1 else 0)) [0..<n]"
proof (induction m)
  case 0
  then show ?case by (simp add: map_replicate_const [symmetric] del: replicate.simps) (simp add: map_replicate_const)
next
  case (Suc m)
  let ?f = "\<lambda>m i. int (m div n) + (if i < m mod n then 1 else 0)"
  have "fold (\<lambda>k out. bumpAt (k mod n) out) [0..<Suc m] (replicate n 0)
        = bumpAt (m mod n) (map (?f m) [0..<n])"
    by (simp add: Suc.IH)
  also have "\<dots> = map (?f (Suc m)) [0..<n]"
  proof (rule nth_equalityI)
    show "length (bumpAt (m mod n) (map (?f m) [0..<n])) = length (map (?f (Suc m)) [0..<n])"
      by (simp add: length_bumpAt)
  next
    fix i
    assume "i < length (bumpAt (m mod n) (map (?f m) [0..<n]))"
    then have i: "i < n" by (simp add: length_bumpAt)
    have j: "m mod n < n" using assms by simp
    have "bumpAt (m mod n) (map (?f m) [0..<n]) ! i = ?f m i + (if i = m mod n then 1 else 0)"
      using i by (simp add: nth_bumpAt)
    also have "\<dots> = ?f (Suc m) i"
    proof (cases "Suc (m mod n) = n")
      case True
      then have "Suc m mod n = 0" "Suc m div n = Suc (m div n)"
        by (simp_all add: mod_Suc div_Suc)
      then show ?thesis using True i by auto
    next
      case False
      then have "Suc m mod n = Suc (m mod n)" "Suc m div n = m div n"
        by (simp_all add: mod_Suc div_Suc)
      then show ?thesis by auto
    qed
    finally show "bumpAt (m mod n) (map (?f m) [0..<n]) ! i = map (?f (Suc m)) [0..<n] ! i"
      using i by simp
  qed
  finally show ?case .
qed

lemma fl64_zero: "fl64 0 = 0"
  by (simp add: fl64_def)

lemma fold_fl64_zero: "fold (\<lambda>b a. fl64 (a + b)) (replicate n 0) 0 = 0"
  by (induction n) (simp_all add: fl64_zero)

lemma distributeToTotal64_zero_weights:
  assumes ne: "weights \<noteq> []" and zero: "\<forall>w \<in> set weights. w \<le> 0" and tot: "0 \<le> tot"
  shows "distributeToTotal64 tot weights =
           Inr (map (\<lambda>i. tot div int (length weights) +
                          (if int i < tot mod int (length weights) then 1 else 0))
                  [0..<length weights])"
proof -
  let ?n = "length weights"
  have n: "0 < ?n" using ne by simp
  have nonneg: "dt_nonneg weights = replicate ?n 0"
    using zero by (auto simp: dt_nonneg_def map_replicate_const [symmetric] intro!: map_cong) 
  have s: "dt64_sum weights = 1"
    unfolding dt64_sum_def nonneg fold_fl64_zero by simp
  have raw: "dt64_raw tot weights = replicate ?n 0"
    by (simp add: dt64_raw_def nonneg s fl64_zero)
  have base: "dt64_base tot weights = replicate ?n 0"
    by (simp add: dt64_base_def raw)
  have rem: "dt64_rem tot weights = tot"
    by (simp add: dt64_rem_def base sum_list_replicate)
  have "map (\<lambda>i. (i, fl64 (dt64_raw tot weights ! i - of_int (dt64_base tot weights ! i))))
            [0..<length (dt64_raw tot weights)] = map (\<lambda>i. (i, 0)) [0..<?n]"
    by (rule map_cong) (simp_all add: raw base fl64_zero)
  then have "dt64_order tot weights = sort_key (\<lambda>(i, frac). - frac) (map (\<lambda>i. (i, 0)) [0..<?n])"
    by (simp only: dt64_order_def)
  also have "\<dots> = map (\<lambda>i. (i, 0)) [0..<?n]"
    by (rule sort_key_id_if_sorted) (simp add: comp_def sorted_replicate map_replicate_const)
  finally have order: "dt64_order tot weights = map (\<lambda>i. (i, 0)) [0..<?n]" .
  have idx: "fst (dt64_order tot weights ! (k mod ?n)) = k mod ?n" for k
    using n by (simp add: order)
  have "distributeToTotal64 tot weights
        = Inr (fold (\<lambda>k out. bumpAt (k mod ?n) out) [0..<nat tot] (replicate ?n 0))"
    by (simp add: distributeToTotal64_returns [OF ne] idx base rem)
  also have "fold (\<lambda>k out. bumpAt (k mod ?n) out) [0..<nat tot] (replicate ?n 0)
             = map (\<lambda>i. int (nat tot div ?n) + (if i < nat tot mod ?n then 1 else 0)) [0..<?n]"
    by (rule round_robin [OF n])
  also have "\<dots> = map (\<lambda>i. tot div int ?n + (if int i < tot mod int ?n then 1 else 0)) [0..<?n]"
  proof -
    have d: "int (nat tot div ?n) = tot div int ?n"
      using tot by (simp add: zdiv_int)
    have m: "int (nat tot mod ?n) = tot mod int ?n"
      using tot by (simp add: zmod_int)
    have "(i < nat tot mod ?n) = (int i < tot mod int ?n)" for i
      using m by linarith
    then show ?thesis by (simp add: d)
  qed
  finally show ?thesis .
qed

text \<open>
  Under the bound the exact embedding and the rounded one return results of the same
  length and the same sum; they can differ in where the units left go.
\<close>

lemma distributeToTotal64_sum_agrees:
  assumes "weights \<noteq> []" and "0 \<le> tot"
    and "(\<exists>w \<in> set weights. 0 < w) \<longrightarrow> (tot + 1) * (int (length weights) + 3) \<le> 2 ^ 52"
  shows "\<exists>out out'. distributeToTotal64 tot weights = Inr out \<and>
           distributeToTotal tot weights = Inr out' \<and>
           length out = length out' \<and> sum_list out = tot \<and> sum_list out' = tot"
proof -
  obtain out where out: "distributeToTotal64 tot weights = Inr out"
    using distributeToTotal64_returns [OF assms(1)] by blast
  obtain out' where out': "distributeToTotal tot weights = Inr out'"
    using distributeToTotal_returns [OF assms(1)] by blast
  have len: "length out = length weights"
    using out distributeToTotal64_returns [OF assms(1), of tot]
    by (auto simp: fold_bumpAt_length length_dt64_base)
  have len': "length out' = length weights"
    using out' distributeToTotal_returns [OF assms(1), of tot]
    by (auto simp: fold_bumpAt_length length_dt_base)
  have "0 \<le> dt64_rem tot weights"
  proof (cases "\<exists>w \<in> set weights. 0 < w")
    case True
    then show ?thesis using dt64_rem_bounds(1) [OF assms(1) True assms(2)] assms(3) by blast
  next
    case False
    then have "\<forall>w \<in> set weights. w \<le> 0" by (auto simp: not_less)
    then have "dt_nonneg weights = replicate (length weights) 0"
      by (auto simp: dt_nonneg_def map_replicate_const [symmetric] intro!: map_cong)
    then have "dt64_raw tot weights = replicate (length weights) 0"
      by (simp add: dt64_raw_def fl64_zero)
    then have "dt64_rem tot weights = tot"
      by (simp add: dt64_rem_def dt64_base_def sum_list_replicate)
    then show ?thesis using assms(2) by simp
  qed
  then have "sum_list out = tot" using assms(1) out by (intro distributeToTotal64_sum)
  moreover have "sum_list out' = tot" using assms(1,2) out' by (rule distributeToTotal_sum)
  ultimately show ?thesis using out out' len len' by simp
qed

text \<open>
  Three computations, step by step. The total 11 over the weights 15 and 7: the shares
  are 7.499999999999999 and 3.5, so the unit left goes to the second entry. The spec's
  example, the total 10 over three weights 3: the three shares are the same double, and
  the unit left goes to the first. And a total between \<open>2\<^sup>5\<^sup>2\<close> and \<open>2\<^sup>5\<^sup>3\<close>: both shares
  are rounded up to integers that sum to one more than the total.
\<close>

lemma halves_sum: "dt64_sum [15, 7] = 22"
  by code_simp

lemma halves_raw: "dt64_raw 11 [15, 7] = [8444249301319679 / 1125899906842624, 7 / 2]"
  unfolding dt64_raw_def halves_sum by code_simp

lemma halves_base: "dt64_base 11 [15, 7] = [7, 3]"
  unfolding dt64_base_def halves_raw by code_simp

lemma halves_rem: "dt64_rem 11 [15, 7] = 1"
  unfolding dt64_rem_def halves_base by simp

lemma halves_order: "dt64_order 11 [15, 7] = [(1, 1 / 2), (0, 562949953421311 / 1125899906842624)]"
  unfolding dt64_order_def halves_raw halves_base by code_simp

lemma halves_out: "distributeToTotal64 11 [15, 7] = Inr [7, 4]"
  unfolding distributeToTotal64_def halves_order halves_rem halves_base by code_simp

lemma thirds_sum: "dt64_sum [3, 3, 3] = 9"
  by code_simp

lemma thirds_raw: "dt64_raw 10 [3, 3, 3] = [3752999689475413 / 1125899906842624, 3752999689475413 / 1125899906842624, 3752999689475413 / 1125899906842624]"
  unfolding dt64_raw_def thirds_sum by code_simp

lemma thirds_base: "dt64_base 10 [3, 3, 3] = [3, 3, 3]"
  unfolding dt64_base_def thirds_raw by code_simp

lemma thirds_rem: "dt64_rem 10 [3, 3, 3] = 1"
  unfolding dt64_rem_def thirds_base by simp

lemma thirds_order: "dt64_order 10 [3, 3, 3] = [(0, 375299968947541 / 1125899906842624), (1, 375299968947541 / 1125899906842624), (2, 375299968947541 / 1125899906842624)]"
  unfolding dt64_order_def thirds_raw thirds_base by code_simp

lemma thirds_out: "distributeToTotal64 10 [3, 3, 3] = Inr [4, 3, 3]"
  unfolding distributeToTotal64_def thirds_order thirds_rem thirds_base by code_simp

lemma large_sum: "dt64_sum [1392, 988] = 2380"
  by code_simp

lemma large_raw: "dt64_raw 8443866129322115 [1392, 988] = [4938597332779994, 3505268796542122]"
  unfolding dt64_raw_def large_sum by code_simp

lemma large_base: "dt64_base 8443866129322115 [1392, 988] = [4938597332779994, 3505268796542122]"
  unfolding dt64_base_def large_raw by code_simp

lemma large_rem: "dt64_rem 8443866129322115 [1392, 988] = - 1"
  unfolding dt64_rem_def large_base by simp

lemma large_order: "dt64_order 8443866129322115 [1392, 988] = [(0, 0), (1, 0)]"
  unfolding dt64_order_def large_raw large_base by code_simp

lemma large_out: "distributeToTotal64 8443866129322115 [1392, 988] = Inr [4938597332779994, 3505268796542122]"
  unfolding distributeToTotal64_def large_order large_rem large_base by code_simp

lemma zeros_out: "distributeToTotal64 5 [0, 0, 0] = Inr [2, 2, 1]"
  by code_simp

text \<open>
  Claim C1, as the code has it. Take a total \<open>T \<ge> 0\<close> and a non-empty vector of \<open>n\<close>
  weights; a weight that is not positive counts as 0.
  \<^item> When no weight is positive and \<open>T \<le> 2\<^sup>5\<^sup>3\<close>, the \<open>T\<close> units are dealt round-robin in
    the original order: entry \<open>i\<close> gets \<open>T div n\<close>, and one more when \<open>i < T mod n\<close>; the
    entries sum to \<open>T\<close>.
  \<^item> When some weight is positive and \<open>(T + 1) * (n + 3) \<le> 2\<^sup>5\<^sup>2\<close>, the function returns
    one integer per weight and their sum is exactly \<open>T\<close>. The base allocation of an
    entry is the floor of its share as the program computes it, \<open>w / sum * T\<close> with the
    sum, the quotient and the product each rounded to a double, and is not negative.
    Between 0 and \<open>n\<close> units are left after flooring, and they go one each to the first
    entries of \<open>order\<close>: the entries by descending fractional remainder of the computed
    shares, equal remainders in their original order (a stable sort).

  With no weights at all the function throws for \<open>T > 0\<close>, and beyond the bound the sum
  can miss the total (\<open>distributeToTotal64_counterexample\<close> below).
\<close>

theorem distributeToTotal64_exact_sum:
  assumes "weights \<noteq> []" and "0 \<le> tot"
  shows "((\<forall>w \<in> set weights. w \<le> 0) \<longrightarrow> tot \<le> 2 ^ 53 \<longrightarrow>
            distributeToTotal64 tot weights =
              Inr (map (\<lambda>i. tot div int (length weights) +
                             (if int i < tot mod int (length weights) then 1 else 0))
                     [0..<length weights]) \<and>
            sum_list (map (\<lambda>i. tot div int (length weights) +
                             (if int i < tot mod int (length weights) then 1 else 0))
                     [0..<length weights]) = tot) \<and>
         ((\<exists>w \<in> set weights. 0 < w) \<longrightarrow> (tot + 1) * (int (length weights) + 3) \<le> 2 ^ 52 \<longrightarrow>
            (\<exists>out. distributeToTotal64 tot weights = Inr out \<and>
               length out = length weights \<and>
               sum_list out = tot \<and>
               0 \<le> dt64_rem tot weights \<and> dt64_rem tot weights \<le> int (length weights) \<and>
               (\<forall>i<length weights.
                  0 \<le> dt64_base tot weights ! i \<and>
                  out ! i = dt64_base tot weights ! i +
                    (if i \<in> fst ` set (take (nat (dt64_rem tot weights)) (dt64_order tot weights))
                     then 1 else 0))))"
proof (intro conjI impI)
  assume zero: "\<forall>w \<in> set weights. w \<le> 0"
  let ?out = "map (\<lambda>i. tot div int (length weights) +
                        (if int i < tot mod int (length weights) then 1 else 0)) [0..<length weights]"
  show ret: "distributeToTotal64 tot weights = Inr ?out"
    using assms(1) zero assms(2) by (rule distributeToTotal64_zero_weights)
  have "dt64_base tot weights = replicate (length weights) 0"
  proof -
    have "dt_nonneg weights = replicate (length weights) 0"
      using zero by (auto simp: dt_nonneg_def map_replicate_const [symmetric] intro!: map_cong)
    then have "dt64_raw tot weights = replicate (length weights) 0"
      by (simp add: dt64_raw_def fl64_zero)
    then show ?thesis by (simp add: dt64_base_def)
  qed
  then have "dt64_rem tot weights = tot" by (simp add: dt64_rem_def sum_list_replicate)
  then have "0 \<le> dt64_rem tot weights" using assms(2) by simp
  from distributeToTotal64_sum [OF assms(1) this ret] show "sum_list ?out = tot" .
next
  assume pos: "\<exists>w \<in> set weights. 0 < w"
    and small: "(tot + 1) * (int (length weights) + 3) \<le> 2 ^ 52"
  obtain out where out: "distributeToTotal64 tot weights = Inr out"
    using distributeToTotal64_returns [OF assms(1)] by blast
  have len: "length out = length weights"
    using out distributeToTotal64_returns [OF assms(1), of tot]
    by (auto simp: fold_bumpAt_length length_dt64_base)
  have r0: "0 \<le> dt64_rem tot weights" and rn: "dt64_rem tot weights \<le> int (length weights)"
    using dt64_rem_bounds [OF assms(1) pos assms(2) small] by simp_all
  have sum: "sum_list out = tot"
    using assms(1) r0 out by (rule distributeToTotal64_sum)
  have each: "0 \<le> dt64_base tot weights ! i \<and>
              out ! i = dt64_base tot weights ! i +
                (if i \<in> fst ` set (take (nat (dt64_rem tot weights)) (dt64_order tot weights))
                 then 1 else 0)" if "i < length weights" for i
    using dt64_base_ge0 [OF assms(2) that] distributeToTotal64_one_each [OF assms(1) r0 rn out that]
    by simp
  show "\<exists>out. distributeToTotal64 tot weights = Inr out \<and>
               length out = length weights \<and>
               sum_list out = tot \<and>
               0 \<le> dt64_rem tot weights \<and> dt64_rem tot weights \<le> int (length weights) \<and>
               (\<forall>i<length weights.
                  0 \<le> dt64_base tot weights ! i \<and>
                  out ! i = dt64_base tot weights ! i +
                    (if i \<in> fst ` set (take (nat (dt64_rem tot weights)) (dt64_order tot weights))
                     then 1 else 0))"
    using out len sum r0 rn each by blast
qed

theorem distributeToTotal64_exact_sum_witness:
  "distributeToTotal64 11 [15, 7] = Inr [7, 4] \<and> sum_list [7, 4 :: int] = 11 \<and>
   dt64_base 11 [15, 7] = [7, 3] \<and> dt64_rem 11 [15, 7] = 1 \<and>
   distributeToTotal64 5 [0, 0, 0] = Inr [2, 2, 1] \<and> sum_list [2, 2, 1 :: int] = 5"
proof -
  have "\<exists>out. distributeToTotal64 11 [15, 7] = Inr out \<and> sum_list out = 11"
    using distributeToTotal64_exact_sum [of "[15, 7]" 11] by auto
  moreover have "distributeToTotal64 5 [0, 0, 0] = Inr [2, 2, 1]"
    using distributeToTotal64_exact_sum [of "[0, 0, 0]" 5] by (simp add: upt_rec)
  ultimately show ?thesis
    by (auto simp: halves_out halves_base halves_rem)
qed

text \<open>
  Claim C1 as stated covers every weight vector and every total. With no weights the
  function throws as soon as a unit is to be handed out, and no vector of no entries
  sums to 1. And for the total 8443866129322115, which is below \<open>2\<^sup>5\<^sup>3\<close>, and the
  weights 1392 and 988 the floors of the two computed shares already sum to the total
  plus 1: \<open>rem\<close> is -1, the loop is not entered and the result sums to
  8443866129322116.
\<close>

theorem distributeToTotal64_counterexample:
  "distributeToTotal64 1 [] = Inl TypeError \<and>
   distributeToTotal64 8443866129322115 [1392, 988] = Inr [4938597332779994, 3505268796542122] \<and>
   sum_list [4938597332779994, 3505268796542122 :: int] = 8443866129322115 + 1 \<and>
   (8443866129322115 :: int) < 2 ^ 53"
proof -
  have 1: "distributeToTotal64 1 [] = Inl TypeError" by code_simp
  show ?thesis using 1 large_out by simp
qed

subsection \<open>What a reprojection returns\<close>

lemma reproject_empty:
  "rp_sessions data fromDate toDate = [] \<Longrightarrow>
   reprojectForDateRange data fromDate toDate = Inr (emptyShape data)"
  by (simp add: reprojectForDateRange_def)

text \<open>With sessions in the range, the result is the input with ten fields replaced.\<close>

lemma reproject_nonempty:
  assumes "rp_sessions data fromDate toDate \<noteq> []"
    and "reprojectForDateRange data fromDate toDate = Inr d"
  shows "\<exists>addsAlloc remsAlloc cartsAlloc.
     distributeToTotal (sum_list (map s_nCartAdd (rp_sessions data fromDate toDate)))
        (map (\<lambda>r. real_of_int (lr_adds r)) (lk_items (leak data))) = Inr addsAlloc \<and>
     distributeToTotal (sum_list (map s_nCartRemove (rp_sessions data fromDate toDate)))
        (map (\<lambda>r. real_of_int (lr_removes r)) (lk_items (leak data))) = Inr remsAlloc \<and>
     distributeToTotal (sum_list (map s_nCartAdd (rp_sessions data fromDate toDate)))
        (map (\<lambda>c. real_of_int (c_carts c)) (categoryInteractions data)) = Inr cartsAlloc \<and>
     d = data
       \<lparr> sessions := rp_sessions data fromDate toDate,
         daily := (daily data)\<lparr> series :=
            filter (\<lambda>r. inRange fromDate toDate (d_date r)) (series (daily data)) \<rparr>,
         leak := \<lparr> lk_overall =
                     (if sum_list (map s_nCartAdd (rp_sessions data fromDate toDate)) > 0
                      then of_int (sum_list (map s_nCartRemove (rp_sessions data fromDate toDate)))
                           / of_int (sum_list (map s_nCartAdd (rp_sessions data fromDate toDate)))
                      else 0),
                   lk_items = rp_leakItems (lk_items (leak data)) addsAlloc remsAlloc \<rparr>,
         categoryInteractions :=
           rp_categoryInteractions (rp_ratio data (rp_sessions data fromDate toDate))
             (categoryInteractions data) cartsAlloc,
         priceRangeData :=
           rp_priceRangeData (rp_ratio data (rp_sessions data fromDate toDate)) (priceRangeData data),
         priceBands :=
           rp_priceBands (rp_ratio data (rp_sessions data fromDate toDate)) (priceBands data),
         transitions :=
           \<lparr> t_states = t_states (transitions data),
             t_counts = rp_scaledCounts (rp_ratio data (rp_sessions data fromDate toDate))
                          (t_counts (transitions data)),
             t_probs = rowProbs (rp_scaledCounts (rp_ratio data (rp_sessions data fromDate toDate))
                          (t_counts (transitions data))) \<rparr>,
         sankey :=
           \<lparr> sk_nodes = sk_nodes (sankey data),
             sk_links = rp_links (rp_scaledCounts (rp_ratio data (rp_sessions data fromDate toDate))
                          (t_counts (transitions data))) \<rparr>,
         recos := recos data,
         frequentBundles :=
           rp_frequentBundles (rp_ratio data (rp_sessions data fromDate toDate))
             (frequentBundles data) \<rparr>"
  using assms
  by (auto simp add: reprojectForDateRange_def Let_def split: sum.splits)

text \<open>An apportionment throws exactly when there is a unit to hand out and nobody to take it.\<close>

lemma distributeToTotal_throws_iff:
  "(\<exists>e. distributeToTotal tot weights = Inl e) \<longleftrightarrow> weights = [] \<and> 0 < tot"
proof (cases "weights = []")
  case True
  then show ?thesis
    by (simp add: distributeToTotal_def dt_order_def dt_rem_def dt_base_def dt_raw_def
        dt_nonneg_def Let_def)
next
  case False
  then show ?thesis using distributeToTotal_returns [OF False, of tot] by simp
qed

lemma distributeToTotal_returns_iff:
  "(\<exists>out. distributeToTotal tot weights = Inr out) \<longleftrightarrow> (weights = [] \<longrightarrow> tot \<le> 0)"
proof -
  have "(\<exists>out. distributeToTotal tot weights = Inr out) \<longleftrightarrow>
        \<not> (\<exists>e. distributeToTotal tot weights = Inl e)"
    by (cases "distributeToTotal tot weights") simp_all
  then show ?thesis by (simp add: distributeToTotal_throws_iff not_less)
qed

lemma reproject_returns_iff:
  assumes "rp_sessions data fromDate toDate \<noteq> []"
  shows "(\<exists>d. reprojectForDateRange data fromDate toDate = Inr d) \<longleftrightarrow>
         (lk_items (leak data) = [] \<longrightarrow>
            sum_list (map s_nCartAdd (rp_sessions data fromDate toDate)) \<le> 0 \<and>
            sum_list (map s_nCartRemove (rp_sessions data fromDate toDate)) \<le> 0) \<and>
         (categoryInteractions data = [] \<longrightarrow>
            sum_list (map s_nCartAdd (rp_sessions data fromDate toDate)) \<le> 0)"
proof -
  let ?ss = "rp_sessions data fromDate toDate"
  let ?A = "distributeToTotal (sum_list (map s_nCartAdd ?ss))
              (map (\<lambda>r. real_of_int (lr_adds r)) (lk_items (leak data)))"
  let ?R = "distributeToTotal (sum_list (map s_nCartRemove ?ss))
              (map (\<lambda>r. real_of_int (lr_removes r)) (lk_items (leak data)))"
  let ?C = "distributeToTotal (sum_list (map s_nCartAdd ?ss))
              (map (\<lambda>c. real_of_int (c_carts c)) (categoryInteractions data))"
  have "(\<exists>d. reprojectForDateRange data fromDate toDate = Inr d) \<longleftrightarrow>
        (\<exists>a. ?A = Inr a) \<and> (\<exists>r. ?R = Inr r) \<and> (\<exists>c. ?C = Inr c)"
    using assms
    by (cases ?A; cases ?R; cases ?C) (simp_all add: reprojectForDateRange_def Let_def)
  then show ?thesis
    by (simp add: distributeToTotal_returns_iff) blast
qed

subsection \<open>The fields of the service's bundle\<close>

lemma sessions_bundleOf: "sessions (bundleOf ss meta) = map sessionRow ss"
  by (simp add: bundleOf_def Let_def)

lemma leak_bundleOf: "leak (bundleOf ss meta) = leakAnalytics ss meta"
  by (simp add: bundleOf_def Let_def)

lemma categoryInteractions_bundleOf:
  "categoryInteractions (bundleOf ss meta) = categoryInteractionsOf ss meta"
  by (simp add: bundleOf_def Let_def)

lemma transitions_bundleOf:
  "transitions (bundleOf ss meta) =
     \<lparr> t_states = map stateName states,
       t_counts = transitionCounts (allTransitions ss meta),
       t_probs = rowProbs (transitionCounts (allTransitions ss meta)) \<rparr>"
  by (simp add: bundleOf_def transitionMatrixAndSankey_def Let_def)

lemma sankey_bundleOf:
  "sankey (bundleOf ss meta) =
     \<lparr> sk_nodes = map stateName states,
       sk_links = serviceLinks (transitionCounts (allTransitions ss meta)) \<rparr>"
  by (simp add: bundleOf_def transitionMatrixAndSankey_def Let_def)

lemma daily_bundleOf: "daily (bundleOf ss meta) = dailyTrends ss"
  by (simp add: bundleOf_def Let_def)

lemma priceBands_bundleOf:
  "priceBands (bundleOf ss meta) = priceBandsFromQuantiles meta (allTransitions ss meta)"
  by (simp add: bundleOf_def transitionMatrixAndSankey_def Let_def)

lemma priceRangeData_bundleOf:
  "priceRangeData (bundleOf ss meta) = buildPriceRangeData ss meta (allTransitions ss meta)"
  by (simp add: bundleOf_def transitionMatrixAndSankey_def Let_def)

lemma recos_bundleOf: "recos (bundleOf ss meta) = fst (cooccurrenceRecos ss)"
  by (simp add: bundleOf_def Let_def)

lemma frequentBundles_bundleOf: "frequentBundles (bundleOf ss meta) = snd (cooccurrenceRecos ss)"
  by (simp add: bundleOf_def Let_def)

lemma computeAnalyticsFromDocs_bundleOf:
  "computeAnalyticsFromDocs trackingDocs listings productCategories =
     bundleOf (map collectSessionEvents trackingDocs)
       (buildItemMeta listings (buildCategoryMap productCategories))"
  by (simp add: computeAnalyticsFromDocs_def Let_def)

subsection \<open>The sample bundle\<close>

lemma sampleBundle_bundleOf: "sampleBundle = bundleOf sampleSessions sampleMeta"
  by (simp add: sampleBundle_def sampleSessions_def sampleMeta_def computeAnalyticsFromDocs_bundleOf)

lemma sample_sessions:
  "sessions sampleBundle =
     [\<lparr> s_sessionId = ''s1'', s_visitorId = ''v1'', s_country = ''DE'',
        s_ts = ''2024-10-01T08:00:00.000Z'', s_nView = 1, s_nCartAdd = 2, s_nCartRemove = 0 \<rparr>,
      \<lparr> s_sessionId = ''s2'', s_visitorId = ''v2'', s_country = ''FR'',
        s_ts = ''2024-10-02T09:00:00.000Z'', s_nView = 0, s_nCartAdd = 2, s_nCartRemove = 2 \<rparr>]"
  unfolding sampleBundle_bundleOf sessions_bundleOf by code_simp

lemma sample_leak:
  "leak sampleBundle =
     \<lparr> lk_overall = 1 / 2,
       lk_items = [\<lparr> lr_item = ''B'', lr_adds = 2, lr_removes = 2, lr_leak = 1 \<rparr>,
                   \<lparr> lr_item = ''A'', lr_adds = 2, lr_removes = 0, lr_leak = 0 \<rparr>] \<rparr>"
  unfolding sampleBundle_bundleOf leak_bundleOf by code_simp

lemma sample_categoryInteractions:
  "categoryInteractions sampleBundle =
     [\<lparr> c_category = ''Audio'', c_views = 1, c_carts = 2, c_wish = 0, c_total = 3 \<rparr>,
      \<lparr> c_category = ''Video'', c_views = 0, c_carts = 2, c_wish = 0, c_total = 2 \<rparr>]"
  unfolding sampleBundle_bundleOf categoryInteractions_bundleOf by code_simp

lemma sample_counts:
  "t_counts (transitions sampleBundle) =
     [[2, 1, 0, 0, 0], [0, 1, 0, 0, 0], [1, 0, 0, 0, 0], [0, 0, 0, 0, 0], [0, 0, 0, 0, 0]]"
  unfolding sampleBundle_bundleOf transitions_bundleOf transitions_t.simps by code_simp

lemma sample_out_of_range: "rp_sessions sampleBundle ''2025-01-01'' ''2025-01-31'' = []"
  unfolding rp_sessions_def sample_sessions by code_simp

lemma sample_second_day:
  "rp_sessions sampleBundle ''2024-10-02'' ''2024-10-02'' =
     [\<lparr> s_sessionId = ''s2'', s_visitorId = ''v2'', s_country = ''FR'',
        s_ts = ''2024-10-02T09:00:00.000Z'', s_nView = 0, s_nCartAdd = 2, s_nCartRemove = 2 \<rparr>]"
  unfolding rp_sessions_def sample_sessions by code_simp

subsection \<open>Ranges without sessions\<close>

text \<open>
  Claim C6. For every bundle and every date range that matches none of its sessions,
  \<open>reprojectForDateRange\<close> returns (it does not throw) the empty shape: no sessions, no
  daily rows, a leak of 0 with no items, no category rows, no price samples, no price
  bands, the five states with 5 by 5 matrices of zeros for the counts and the
  probabilities, and the five nodes with no link.
\<close>

theorem reproject_empty_shape:
  assumes "rp_sessions data fromDate toDate = []"
  shows "\<exists>d. reprojectForDateRange data fromDate toDate = Inr d \<and>
           sessions d = [] \<and>
           series (daily d) = [] \<and>
           leak d = \<lparr> lk_overall = 0, lk_items = [] \<rparr> \<and>
           categoryInteractions d = [] \<and>
           priceRangeData d = \<lparr> viewFromPrices = [], viewToCartFromPrices = [],
                                  cartAddPrices = [], cartRemovePrices = [] \<rparr> \<and>
           priceBands d = \<lparr> bands = [] \<rparr> \<and>
           t_states (transitions d) =
             [''cart_add'', ''cart_remove'', ''view'', ''wishlist_add'', ''wishlist_remove''] \<and>
           t_counts (transitions d) =
             [[0, 0, 0, 0, 0], [0, 0, 0, 0, 0], [0, 0, 0, 0, 0], [0, 0, 0, 0, 0], [0, 0, 0, 0, 0]] \<and>
           t_probs (transitions d) =
             [[0, 0, 0, 0, 0], [0, 0, 0, 0, 0], [0, 0, 0, 0, 0], [0, 0, 0, 0, 0], [0, 0, 0, 0, 0]] \<and>
           sk_nodes (sankey d) =
             [''cart_add'', ''cart_remove'', ''view'', ''wishlist_add'', ''wishlist_remove''] \<and>
           sk_links (sankey d) = []"
proof -
  have five: "replicate 5 x = [x, x, x, x, x]" for x :: 'a
    by (simp add: numeral_eq_Suc)
  have "reprojectForDateRange data fromDate toDate = Inr (emptyShape data)"
    using assms by (rule reproject_empty)
  then show ?thesis
    by (simp add: emptyShape_def fiveStates_def five)
qed

theorem reproject_empty_shape_witness:
  "rp_sessions sampleBundle ''2025-01-01'' ''2025-01-31'' = [] \<and>
   (\<exists>d. reprojectForDateRange sampleBundle ''2025-01-01'' ''2025-01-31'' = Inr d \<and>
        sessions d = [] \<and> leak d = \<lparr> lk_overall = 0, lk_items = [] \<rparr> \<and>
        sk_links (sankey d) = [])"
  using reproject_empty_shape [OF sample_out_of_range] sample_out_of_range by blast

subsection \<open>What a reprojection leaves alone\<close>

text \<open>
  Claim C10. For every bundle and every date range that matches at least one session, the
  bundle that \<open>reprojectForDateRange\<close> returns has the \<open>geoInsights\<close>, \<open>priceMarkov\<close>,
  \<open>priceMarkovMeta\<close>, \<open>itemMeta\<close>, \<open>daily.anomaly\<close> and \<open>__version\<close> of its input (and its
  \<open>recos\<close>). It returns a bundle unless one of the three apportionments has a unit to
  hand out and no row to take it.
\<close>

theorem reproject_frame:
  assumes "rp_sessions data fromDate toDate \<noteq> []"
  shows "(\<forall>d. reprojectForDateRange data fromDate toDate = Inr d \<longrightarrow>
            geoInsights d = geoInsights data \<and>
            priceMarkov d = priceMarkov data \<and>
            priceMarkovMeta d = priceMarkovMeta data \<and>
            itemMeta d = itemMeta data \<and>
            anomaly (daily d) = anomaly (daily data) \<and>
            version d = version data \<and>
            recos d = recos data) \<and>
         ((\<exists>d. reprojectForDateRange data fromDate toDate = Inr d) \<longleftrightarrow>
            (lk_items (leak data) = [] \<longrightarrow>
               sum_list (map s_nCartAdd (rp_sessions data fromDate toDate)) \<le> 0 \<and>
               sum_list (map s_nCartRemove (rp_sessions data fromDate toDate)) \<le> 0) \<and>
            (categoryInteractions data = [] \<longrightarrow>
               sum_list (map s_nCartAdd (rp_sessions data fromDate toDate)) \<le> 0))"
proof (intro conjI allI impI)
  fix d
  assume "reprojectForDateRange data fromDate toDate = Inr d"
  from reproject_nonempty [OF assms this]
  obtain addsAlloc remsAlloc cartsAlloc where d: "d = data
       \<lparr> sessions := rp_sessions data fromDate toDate,
         daily := (daily data)\<lparr> series :=
            filter (\<lambda>r. inRange fromDate toDate (d_date r)) (series (daily data)) \<rparr>,
         leak := \<lparr> lk_overall =
                     (if sum_list (map s_nCartAdd (rp_sessions data fromDate toDate)) > 0
                      then of_int (sum_list (map s_nCartRemove (rp_sessions data fromDate toDate)))
                           / of_int (sum_list (map s_nCartAdd (rp_sessions data fromDate toDate)))
                      else 0),
                   lk_items = rp_leakItems (lk_items (leak data)) addsAlloc remsAlloc \<rparr>,
         categoryInteractions :=
           rp_categoryInteractions (rp_ratio data (rp_sessions data fromDate toDate))
             (categoryInteractions data) cartsAlloc,
         priceRangeData :=
           rp_priceRangeData (rp_ratio data (rp_sessions data fromDate toDate)) (priceRangeData data),
         priceBands :=
           rp_priceBands (rp_ratio data (rp_sessions data fromDate toDate)) (priceBands data),
         transitions :=
           \<lparr> t_states = t_states (transitions data),
             t_counts = rp_scaledCounts (rp_ratio data (rp_sessions data fromDate toDate))
                          (t_counts (transitions data)),
             t_probs = rowProbs (rp_scaledCounts (rp_ratio data (rp_sessions data fromDate toDate))
                          (t_counts (transitions data))) \<rparr>,
         sankey :=
           \<lparr> sk_nodes = sk_nodes (sankey data),
             sk_links = rp_links (rp_scaledCounts (rp_ratio data (rp_sessions data fromDate toDate))
                          (t_counts (transitions data))) \<rparr>,
         recos := recos data,
         frequentBundles :=
           rp_frequentBundles (rp_ratio data (rp_sessions data fromDate toDate))
             (frequentBundles data) \<rparr>"
    by blast
  show "geoInsights d = geoInsights data" by (simp add: d)
  show "priceMarkov d = priceMarkov data" by (simp add: d)
  show "priceMarkovMeta d = priceMarkovMeta data" by (simp add: d)
  show "itemMeta d = itemMeta data" by (simp add: d)
  show "anomaly (daily d) = anomaly (daily data)" by (simp add: d)
  show "version d = version data" by (simp add: d)
  show "recos d = recos data" by (simp add: d)
next
  show "(\<exists>d. reprojectForDateRange data fromDate toDate = Inr d) \<longleftrightarrow>
            (lk_items (leak data) = [] \<longrightarrow>
               sum_list (map s_nCartAdd (rp_sessions data fromDate toDate)) \<le> 0 \<and>
               sum_list (map s_nCartRemove (rp_sessions data fromDate toDate)) \<le> 0) \<and>
            (categoryInteractions data = [] \<longrightarrow>
               sum_list (map s_nCartAdd (rp_sessions data fromDate toDate)) \<le> 0)"
    using assms by (rule reproject_returns_iff)
qed

theorem reproject_frame_witness:
  "rp_sessions sampleBundle ''2024-10-02'' ''2024-10-02'' \<noteq> [] \<and>
   (\<exists>d. reprojectForDateRange sampleBundle ''2024-10-02'' ''2024-10-02'' = Inr d \<and>
        geoInsights d = geoInsights sampleBundle \<and>
        itemMeta d = itemMeta sampleBundle \<and>
        version d = version sampleBundle)"
proof -
  have ne: "rp_sessions sampleBundle ''2024-10-02'' ''2024-10-02'' \<noteq> []"
    by (simp add: sample_second_day)
  have "\<exists>d. reprojectForDateRange sampleBundle ''2024-10-02'' ''2024-10-02'' = Inr d"
    using reproject_frame [OF ne] by (simp add: sample_leak sample_categoryInteractions)
  then show ?thesis using reproject_frame [OF ne] ne by blast
qed

subsection \<open>The cart-add axis of a reprojection\<close>


lemma sum_list_map_sort_key:
  "sum_list (map f (sort_key g xs)) = (sum_list (map f xs) :: int)"
proof -
  have "mset (map f (sort_key g xs)) = mset (map f xs)" by simp
  then show ?thesis by (metis sum_mset_sum_list)
qed





lemma set_fold_unique:
  "set (fold (\<lambda>x acc. if x \<in> set acc then acc else acc @ [x]) xs acc) = set acc \<union> set xs"
  by (induction xs arbitrary: acc) auto

lemma set_uniqueList: "set (uniqueList xs) = set xs"
  by (simp add: uniqueList_def set_fold_unique)

lemma uniqueList_Nil_iff: "uniqueList xs = [] \<longleftrightarrow> xs = []"
  using set_uniqueList [of xs] by (metis set_empty)

lemma sort_key_Nil_iff: "sort_key f xs = [] \<longleftrightarrow> xs = []"
  by (metis length_0_conv length_sort)

text \<open>The cart events of a collected session: every one adds 0 or 1 and removes 0 or 1.\<close>

lemma cartEvents_flags:
  "e \<in> set (cartEvents ts raws) \<Longrightarrow>
   (ev_add e = Some 1 \<and> ev_remove e = Some 0) \<or> (ev_add e = Some 0 \<and> ev_remove e = Some 1)"
  by (auto simp: cartEvents_def Let_def split: option.splits if_splits)

lemma se_carts_collect: "se_carts (collectSessionEvents doc) = cartEvents (orElse (doc_createdAt doc) (doc_now doc)) (cartItems doc)"
  by (simp add: collectSessionEvents_def Let_def)

lemma nCartAdd_collect:
  "se_nCartAdd (collectSessionEvents doc)
     = sum_list (map (\<lambda>evt. orElse (ev_add evt) 0) (se_carts (collectSessionEvents doc)))"
  by (simp add: collectSessionEvents_def Let_def)

lemma nCartRemove_collect:
  "se_nCartRemove (collectSessionEvents doc)
     = sum_list (map (\<lambda>evt. orElse (ev_remove evt) 0) (se_carts (collectSessionEvents doc)))"
  by (simp add: collectSessionEvents_def Let_def)


lemma nCartRemove_collect_ge0: "0 \<le> se_nCartRemove (collectSessionEvents doc)"
  unfolding nCartRemove_collect se_carts_collect
  by (rule sum_list_nonneg) (auto dest!: cartEvents_flags simp: orElse_def)

text \<open>Once a key is in one of the two maps of the leak loop, the map stays non-empty.\<close>

lemma bumpBy_nonempty: "bumpBy k n m \<noteq> []"
  by (simp add: bumpBy_def)

lemma leakStep_adds_nonempty: "ls_adds st \<noteq> [] \<Longrightarrow> ls_adds (leakStep evt st) \<noteq> []"
  by (simp add: leakStep_def Let_def bumpBy_nonempty)

lemma leakStep_removes_nonempty: "ls_removes st \<noteq> [] \<Longrightarrow> ls_removes (leakStep evt st) \<noteq> []"
  by (simp add: leakStep_def Let_def bumpBy_nonempty)

lemma fold_leakStep_adds_nonempty:
  "ls_adds st \<noteq> [] \<Longrightarrow> ls_adds (fold leakStep evts st) \<noteq> []"
  by (induction evts arbitrary: st) (simp_all add: leakStep_adds_nonempty)

lemma fold_leakStep_removes_nonempty:
  "ls_removes st \<noteq> [] \<Longrightarrow> ls_removes (fold leakStep evts st) \<noteq> []"
  by (induction evts arbitrary: st) (simp_all add: leakStep_removes_nonempty)

lemma fold_leakStep_adds_empty:
  "ls_adds (fold leakStep evts st) = [] \<Longrightarrow> e \<in> set evts \<Longrightarrow> orElse (ev_add e) 0 = 0"
proof (induction evts arbitrary: st)
  case Nil
  then show ?case by simp
next
  case (Cons a evts)
  show ?case
  proof (cases "e = a")
    case True
    have "ls_adds (leakStep a st) = []"
      using Cons.prems(1) fold_leakStep_adds_nonempty [of "leakStep a st" evts] by auto
    then show ?thesis
      using True by (auto simp: leakStep_def Let_def bumpBy_nonempty split: if_splits)
  next
    case False
    then show ?thesis using Cons by auto
  qed
qed

lemma fold_leakStep_removes_empty:
  "ls_removes (fold leakStep evts st) = [] \<Longrightarrow> e \<in> set evts \<Longrightarrow> orElse (ev_remove e) 0 = 0"
proof (induction evts arbitrary: st)
  case Nil
  then show ?case by simp
next
  case (Cons a evts)
  show ?case
  proof (cases "e = a")
    case True
    have "ls_removes (leakStep a st) = []"
      using Cons.prems(1) fold_leakStep_removes_nonempty [of "leakStep a st" evts] by auto
    then show ?thesis
      using True by (auto simp: leakStep_def Let_def bumpBy_nonempty split: if_splits)
  next
    case False
    then show ?thesis using Cons by auto
  qed
qed

lemma leakAnalytics_no_items:
  assumes "lk_items (leakAnalytics ss meta) = []" and "s \<in> set ss" and "e \<in> set (se_carts s)"
  shows "orElse (ev_add e) 0 = 0 \<and> orElse (ev_remove e) 0 = 0"
proof -
  have "uniqueList (map fst (ls_adds (leakLoop ss)) @ map fst (ls_removes (leakLoop ss))) = []"
    using assms(1) by (simp add: leakAnalytics_def Let_def sort_key_Nil_iff)
  then have "ls_adds (leakLoop ss) = []" and "ls_removes (leakLoop ss) = []"
    by (simp_all add: uniqueList_Nil_iff)
  moreover have "e \<in> set (concat (map se_carts ss))"
    using assms(2,3) by auto
  ultimately show ?thesis
    unfolding leakLoop_def
    using fold_leakStep_adds_empty fold_leakStep_removes_empty by blast
qed

lemma bump_nonempty: "bump ck m \<noteq> []"
  by (simp add: bump_def Let_def)

lemma fold_bump_nonempty: "m \<noteq> [] \<Longrightarrow> fold bump cks m \<noteq> []"
  by (induction cks arbitrary: m) (simp_all add: bump_nonempty)

lemma fold_bump_Nil_iff: "fold bump cks [] = [] \<longleftrightarrow> cks = []"
  by (cases cks) (simp_all add: fold_bump_nonempty bump_nonempty)

lemma categoryInteractionsOf_none:
  assumes "categoryInteractionsOf ss meta = []" and "s \<in> set ss" and "e \<in> set (se_carts s)"
  shows "orElse (ev_add e) 0 = 0"
proof -
  have "byCategory ss meta = []"
    using assms(1) by (simp add: categoryInteractionsOf_def sort_key_Nil_iff)
  then have "concat (map (sessionBumps meta) ss) = []"
    by (simp add: byCategory_def fold_bump_Nil_iff)
  then have "sessionBumps meta s = []" using assms(2) by auto
  then have "\<not> truthy (ev_add e)"
    using assms(3) by (auto simp: sessionBumps_def filter_empty_conv)
  then show ?thesis by (auto simp: truthy_def orElse_def split: option.splits)
qed

lemma sum_list_all_zero: "(\<And>x. x \<in> set xs \<Longrightarrow> f x = (0::int)) \<Longrightarrow> sum_list (map f xs) = 0"
  by (induction xs) simp_all

lemma rp_sessions_engine:
  assumes "r \<in> set (rp_sessions (computeAnalyticsFromDocs trackingDocs listings productCategories) fromDate toDate)"
  shows "\<exists>doc \<in> set trackingDocs. r = sessionRow (collectSessionEvents doc)"
  using assms
  by (auto simp: rp_sessions_def computeAnalyticsFromDocs_bundleOf sessions_bundleOf)


lemma engine_no_leak_items:
  assumes "lk_items (leak (computeAnalyticsFromDocs trackingDocs listings productCategories)) = []"
  shows "sum_list (map s_nCartAdd
          (rp_sessions (computeAnalyticsFromDocs trackingDocs listings productCategories) fromDate toDate)) = 0"
    and "sum_list (map s_nCartRemove
          (rp_sessions (computeAnalyticsFromDocs trackingDocs listings productCategories) fromDate toDate)) = 0"
proof -
  let ?ss = "map collectSessionEvents trackingDocs"
  have items: "lk_items (leakAnalytics ?ss (buildItemMeta listings (buildCategoryMap productCategories))) = []"
    using assms by (simp add: computeAnalyticsFromDocs_bundleOf leak_bundleOf)
  have zero: "orElse (ev_add e) 0 = 0 \<and> orElse (ev_remove e) 0 = 0"
    if "doc \<in> set trackingDocs" and "e \<in> set (se_carts (collectSessionEvents doc))" for doc e
    using leakAnalytics_no_items [OF items _ that(2)] that(1) by simp
  have row: "s_nCartAdd r = 0 \<and> s_nCartRemove r = 0"
    if mem: "r \<in> set (rp_sessions (computeAnalyticsFromDocs trackingDocs listings productCategories) fromDate toDate)"
    for r
  proof -
    obtain doc where doc: "doc \<in> set trackingDocs" and r: "r = sessionRow (collectSessionEvents doc)"
      using rp_sessions_engine [OF mem] by blast
    have "se_nCartAdd (collectSessionEvents doc) = 0"
      unfolding nCartAdd_collect using zero [OF doc] by (intro sum_list_all_zero) simp
    moreover have "se_nCartRemove (collectSessionEvents doc) = 0"
      unfolding nCartRemove_collect using zero [OF doc] by (intro sum_list_all_zero) simp
    ultimately show ?thesis by (simp add: r sessionRow_def)
  qed
  show "sum_list (map s_nCartAdd
          (rp_sessions (computeAnalyticsFromDocs trackingDocs listings productCategories) fromDate toDate)) = 0"
    using row by (intro sum_list_all_zero) simp
  show "sum_list (map s_nCartRemove
          (rp_sessions (computeAnalyticsFromDocs trackingDocs listings productCategories) fromDate toDate)) = 0"
    using row by (intro sum_list_all_zero) simp
qed

lemma engine_no_categories:
  assumes "categoryInteractions (computeAnalyticsFromDocs trackingDocs listings productCategories) = []"
  shows "sum_list (map s_nCartAdd
          (rp_sessions (computeAnalyticsFromDocs trackingDocs listings productCategories) fromDate toDate)) = 0"
proof -
  let ?ss = "map collectSessionEvents trackingDocs"
  have cats: "categoryInteractionsOf ?ss (buildItemMeta listings (buildCategoryMap productCategories)) = []"
    using assms by (simp add: computeAnalyticsFromDocs_bundleOf categoryInteractions_bundleOf)
  have zero: "orElse (ev_add e) 0 = 0"
    if "doc \<in> set trackingDocs" and "e \<in> set (se_carts (collectSessionEvents doc))" for doc e
    using categoryInteractionsOf_none [OF cats _ that(2)] that(1) by simp
  have row: "s_nCartAdd r = 0"
    if mem: "r \<in> set (rp_sessions (computeAnalyticsFromDocs trackingDocs listings productCategories) fromDate toDate)"
    for r
  proof -
    obtain doc where doc: "doc \<in> set trackingDocs" and r: "r = sessionRow (collectSessionEvents doc)"
      using rp_sessions_engine [OF mem] by blast
    have "se_nCartAdd (collectSessionEvents doc) = 0"
      unfolding nCartAdd_collect using zero [OF doc] by (intro sum_list_all_zero) simp
    then show ?thesis by (simp add: r sessionRow_def)
  qed
  show ?thesis using row by (intro sum_list_all_zero) simp
qed

lemma engine_reproject_returns:
  assumes "rp_sessions (computeAnalyticsFromDocs trackingDocs listings productCategories) fromDate toDate \<noteq> []"
  shows "\<exists>d. reprojectForDateRange (computeAnalyticsFromDocs trackingDocs listings productCategories)
               fromDate toDate = Inr d"
  unfolding reproject_returns_iff [OF assms]
  using engine_no_leak_items [of trackingDocs listings productCategories fromDate toDate]
    engine_no_categories [of trackingDocs listings productCategories fromDate toDate]
  by simp

subsection \<open>The sample bundle on its second day\<close>

lemma sample_ratio:
  "rp_ratio sampleBundle (rp_sessions sampleBundle ''2024-10-02'' ''2024-10-02'') = 1 / 2"
  unfolding rp_ratio_def sample_second_day sample_sessions by (simp add: clamp_def)

lemma sample_reprojection:
  "\<exists>d. reprojectForDateRange sampleBundle ''2024-10-02'' ''2024-10-02'' = Inr d \<and>
       leak d = \<lparr> lk_overall = 1,
                  lk_items = [\<lparr> lr_item = ''B'', lr_adds = 1, lr_removes = 2, lr_leak = 2 \<rparr>,
                              \<lparr> lr_item = ''A'', lr_adds = 1, lr_removes = 0, lr_leak = 0 \<rparr>] \<rparr> \<and>
       categoryInteractions d =
         [\<lparr> c_category = ''Audio'', c_views = 1, c_carts = 1, c_wish = 0, c_total = 2 \<rparr>,
          \<lparr> c_category = ''Video'', c_views = 0, c_carts = 1, c_wish = 0, c_total = 1 \<rparr>] \<and>
       t_counts (transitions d) =
         [[1, 1, 0, 0, 0], [0, 1, 0, 0, 0], [1, 0, 0, 0, 0], [0, 0, 0, 0, 0], [0, 0, 0, 0, 0]] \<and>
       t_probs (transitions d) =
         [[1 / 2, 1 / 2, 0, 0, 0], [0, 1, 0, 0, 0], [1, 0, 0, 0, 0], [0, 0, 0, 0, 0], [0, 0, 0, 0, 0]]"
proof -
  let ?ss = "rp_sessions sampleBundle ''2024-10-02'' ''2024-10-02''"
  have ne: "?ss \<noteq> []" by (simp add: sample_second_day)
  have adds: "distributeToTotal 2 [2, 2] = Inr [1, 1]" by code_simp
  have rems: "distributeToTotal 2 [2, 0] = Inr [2, 0]" by code_simp
  have tA: "sum_list (map s_nCartAdd ?ss) = 2" by (simp add: sample_second_day)
  have tR: "sum_list (map s_nCartRemove ?ss) = 2" by (simp add: sample_second_day)
  obtain d where ret: "reprojectForDateRange sampleBundle ''2024-10-02'' ''2024-10-02'' = Inr d"
    using reproject_returns_iff [OF ne] by (auto simp: sample_leak sample_categoryInteractions)
  from reproject_nonempty [OF ne ret]
  have lk: "leak d = \<lparr> lk_overall = 1,
                        lk_items = rp_leakItems (lk_items (leak sampleBundle)) [1, 1] [2, 0] \<rparr>"
    and cats: "categoryInteractions d =
                 rp_categoryInteractions (1 / 2) (categoryInteractions sampleBundle) [1, 1]"
    and counts: "t_counts (transitions d) = rp_scaledCounts (1 / 2) (t_counts (transitions sampleBundle))"
    and probs: "t_probs (transitions d) =
                  rowProbs (rp_scaledCounts (1 / 2) (t_counts (transitions sampleBundle)))"
    by (auto simp: tA tR sample_ratio sample_leak sample_categoryInteractions adds rems)
  have "rp_leakItems [\<lparr> lr_item = ''B'', lr_adds = 2, lr_removes = 2, lr_leak = 1 \<rparr>,
                      \<lparr> lr_item = ''A'', lr_adds = 2, lr_removes = 0, lr_leak = 0 \<rparr>] [1, 1] [2, 0]
        = [\<lparr> lr_item = ''B'', lr_adds = 1, lr_removes = 2, lr_leak = 2 \<rparr>,
           \<lparr> lr_item = ''A'', lr_adds = 1, lr_removes = 0, lr_leak = 0 \<rparr>]"
    by code_simp
  then have 1: "leak d = \<lparr> lk_overall = 1,
                  lk_items = [\<lparr> lr_item = ''B'', lr_adds = 1, lr_removes = 2, lr_leak = 2 \<rparr>,
                              \<lparr> lr_item = ''A'', lr_adds = 1, lr_removes = 0, lr_leak = 0 \<rparr>] \<rparr>"
    by (simp add: lk sample_leak)
  have "rp_categoryInteractions (1 / 2)
          [\<lparr> c_category = ''Audio'', c_views = 1, c_carts = 2, c_wish = 0, c_total = 3 \<rparr>,
           \<lparr> c_category = ''Video'', c_views = 0, c_carts = 2, c_wish = 0, c_total = 2 \<rparr>] [1, 1]
        = [\<lparr> c_category = ''Audio'', c_views = 1, c_carts = 1, c_wish = 0, c_total = 2 \<rparr>,
           \<lparr> c_category = ''Video'', c_views = 0, c_carts = 1, c_wish = 0, c_total = 1 \<rparr>]"
    by code_simp
  then have 2: "categoryInteractions d =
         [\<lparr> c_category = ''Audio'', c_views = 1, c_carts = 1, c_wish = 0, c_total = 2 \<rparr>,
          \<lparr> c_category = ''Video'', c_views = 0, c_carts = 1, c_wish = 0, c_total = 1 \<rparr>]"
    by (simp add: cats sample_categoryInteractions)
  have sc: "rp_scaledCounts (1 / 2)
          [[2, 1, 0, 0, 0], [0, 1, 0, 0, 0], [1, 0, 0, 0, 0], [0, 0, 0, 0, 0], [0, 0, 0, 0, 0]]
        = [[1, 1, 0, 0, 0], [0, 1, 0, 0, 0], [1, 0, 0, 0, 0], [0, 0, 0, 0, 0], [0, 0, 0, 0, 0]]"
    by code_simp
  have rp: "rowProbs [[1, 1, 0, 0, 0], [0, 1, 0, 0, 0], [1, 0, 0, 0, 0], [0, 0, 0, 0, 0], [0, 0, 0, 0, 0]]
        = [[1 / 2, 1 / 2, 0, 0, 0], [0, 1, 0, 0, 0], [1, 0, 0, 0, 0], [0, 0, 0, 0, 0], [0, 0, 0, 0, 0]]"
    by code_simp
  have 3: "t_counts (transitions d) =
         [[1, 1, 0, 0, 0], [0, 1, 0, 0, 0], [1, 0, 0, 0, 0], [0, 0, 0, 0, 0], [0, 0, 0, 0, 0]]"
    by (simp add: counts sample_counts sc)
  have 4: "t_probs (transitions d) =
         [[1 / 2, 1 / 2, 0, 0, 0], [0, 1, 0, 0, 0], [1, 0, 0, 0, 0], [0, 0, 0, 0, 0], [0, 0, 0, 0, 0]]"
    by (simp add: probs sample_counts sc rp)
  show ?thesis using ret 1 2 3 4 by blast
qed



subsection \<open>Transition probabilities\<close>


















subsection \<open>Leak ratios\<close>

lemma clampValue_unit: "0 \<le> clampValue v 0 1 \<and> clampValue v 0 1 \<le> 1"
  by (simp add: clampValue_def)

text \<open>The service clamps: every leak it reports lies between 0 and 1.\<close>

lemma leakAnalytics_unit:
  "0 \<le> lk_overall (leakAnalytics ss meta) \<and> lk_overall (leakAnalytics ss meta) \<le> 1 \<and>
   (tAdds (leakLoop ss) = 0 \<longrightarrow> lk_overall (leakAnalytics ss meta) = 0) \<and>
   (\<forall>r \<in> set (lk_items (leakAnalytics ss meta)). 0 \<le> lr_leak r \<and> lr_leak r \<le> 1)"
  using clampValue_unit by (auto simp: leakAnalytics_def leakRow_def Let_def)

text \<open>
  Claim C4 at the sample input. The reprojection does not clamp: restricted to the second
  day, the sample bundle reports 1 add and 2 removes for item \<open>B\<close> and a leak of 2.
\<close>

theorem reproject_leak_above_one:
  "\<exists>d. reprojectForDateRange (computeAnalyticsFromDocs sampleDocs sampleListings sampleCategories)
          ''2024-10-02'' ''2024-10-02'' = Inr d \<and>
       lk_items (leak d) = [\<lparr> lr_item = ''B'', lr_adds = 1, lr_removes = 2, lr_leak = 2 \<rparr>,
                            \<lparr> lr_item = ''A'', lr_adds = 1, lr_removes = 0, lr_leak = 0 \<rparr>]"
  using sample_reprojection unfolding sampleBundle_def by auto

subsection \<open>Price bands\<close>

lemma q05: "quantileSorted [1, 1, 3, 3] (1 / 20) = Some 1"
  by (simp add: quantileSorted_def Let_def)

lemma q95: "quantileSorted [1, 1, 3, 3] (19 / 20) = Some 3"
proof -
  have "nat \<lfloor>(57::real) / 20\<rfloor> = 2" by simp
  then show ?thesis by (simp add: quantileSorted_def Let_def numeral_2_eq_2)
qed

lemma logs_sorted: "sort [ln 2, ln 2, ln 4, ln (4::real)] = [ln 2, ln 2, ln 4, ln 4]"
  by (rule sorted_sort_id) simp

lemma l33: "quantileSorted [ln 2, ln 2, ln 4, ln (4::real)] (33 / 100) = Some (ln 2)"
  by (simp add: quantileSorted_def Let_def)

lemma l66: "quantileSorted [ln 2, ln 2, ln 4, ln (4::real)] (33 / 50)
            = Some (ln 2 + (ln 4 - ln 2) * (49 / 50))"
proof -
  have "nat \<lfloor>(99::real) / 50\<rfloor> = 1" by simp
  then show ?thesis by (simp add: quantileSorted_def Let_def field_simps)
qed

lemma splits_band:
  "robustPriceSplits [1, 1, 3, 3] = \<lparr> tLow = Some 1, tHigh = Some bandHigh, dispMin = 1, dispMax = 3 \<rparr>"
  by (simp add: robustPriceSplits_def Let_def q05 q95 orElse_def logs_sorted l33 l66 bandHigh_def)

lemma bandHigh_gt: "1 < bandHigh"
proof -
  define x :: real where "x = (ln 4 - ln 2) * (49 / 50)"
  have "ln (2::real) < ln 4" by simp
  then have "0 < x" by (simp add: x_def)
  then have "1 < exp x" by (simp only: one_less_exp_iff)
  moreover have "bandHigh = 2 * exp x - 1"
    by (simp add: bandHigh_def x_def exp_add)
  ultimately show ?thesis by linarith
qed

lemma metaPrices_bandMeta: "metaPrices bandMeta = [1, 1, 3, 3]"
  by (simp add: metaPrices_def bandMeta_def)

lemma priceBands_bandMeta:
  "priceBandsFromQuantiles bandMeta trs =
     \<lparr> bands = map (finishBand (bandLoop 1 bandHigh trs))
                   [emptyBand Low 1 1, emptyBand Mid 1 bandHigh, emptyBand High bandHigh 3] \<rparr>"
  using bandHigh_gt
  by (simp add: priceBandsFromQuantiles_def metaPrices_bandMeta splits_band Let_def)

lemma finishBand_empty:
  "finishBand \<lparr> totals = (\<lambda>_. \<lparr> bt_view = 0, bt_wish = 0 \<rparr>),
                hits = (\<lambda>_. \<lparr> viewCart = 0, wishCart = 0 \<rparr>) \<rparr> (emptyBand name lo hi)
   = emptyBand name lo hi"
  by (simp add: finishBand_def emptyBand_def Let_def)

lemma bandLoop_bandTrs:
  "bt_view (totals (bandLoop 1 bandHigh bandTrs) Low) = 1 \<and>
   bt_wish (totals (bandLoop 1 bandHigh bandTrs) Low) = 0 \<and>
   viewCart (hits (bandLoop 1 bandHigh bandTrs) Low) = 1"
  by (simp add: bandLoop_def bandTrs_def bandStep_def bandForPrice_def Let_def)

text \<open>
  Claim C7, as the code has it. Of every band the builder emits: a band without view
  samples has a view-to-cart rate of 0, and a band without wishlist samples has a
  wishlist-to-cart rate of 0 (the guard \<open>totalsForBand.view ? ... : 0\<close>). A band with
  samples is one of the Low, Mid and High bands between the tier boundaries; its sample
  sizes are the totals the loop over the transitions counted, and a rate with samples is
  the smoothed estimate \<open>(hits + 1) / (total + 2)\<close>.
\<close>

theorem priceBands_laplace:
  assumes "b \<in> set (bands (priceBandsFromQuantiles meta trs))"
  shows "(b_nView b = 0 \<longrightarrow> b_viewToCart b = 0) \<and>
         (b_nWish b = 0 \<longrightarrow> b_wishToCart b = 0) \<and>
         (b_nView b \<noteq> 0 \<or> b_nWish b \<noteq> 0 \<longrightarrow>
            (\<exists>lo hi. tLow (robustPriceSplits (metaPrices meta)) = Some lo \<and>
                     tHigh (robustPriceSplits (metaPrices meta)) = Some hi \<and> lo < hi \<and>
                     b_nView b = bt_view (totals (bandLoop lo hi trs) (b_name b)) \<and>
                     b_nWish b = bt_wish (totals (bandLoop lo hi trs) (b_name b)) \<and>
                     (b_nView b \<noteq> 0 \<longrightarrow>
                        b_viewToCart b =
                          (of_int (viewCart (hits (bandLoop lo hi trs) (b_name b))) + 1)
                          / (of_int (b_nView b) + 2)) \<and>
                     (b_nWish b \<noteq> 0 \<longrightarrow>
                        b_wishToCart b =
                          (of_int (wishCart (hits (bandLoop lo hi trs) (b_name b))) + 1)
                          / (of_int (b_nWish b) + 2))))"
proof (cases "metaPrices meta = []")
  case True
  then have "b = emptyBand AllTier 0 0"
    using assms by (simp add: priceBandsFromQuantiles_def)
  then show ?thesis by (simp add: emptyBand_def)
next
  case False
  let ?sp = "robustPriceSplits (metaPrices meta)"
  show ?thesis
  proof (cases "\<exists>lo hi. tLow ?sp = Some lo \<and> tHigh ?sp = Some hi \<and> lo < hi")
    case True
    then obtain lo hi where lo: "tLow ?sp = Some lo" and hi: "tHigh ?sp = Some hi" and lt: "lo < hi"
      by blast
    have "b \<in> finishBand (bandLoop lo hi trs) `
              {emptyBand Low (dispMin ?sp) lo, emptyBand Mid lo hi, emptyBand High hi (dispMax ?sp)}"
      using assms False lo hi lt by (simp add: priceBandsFromQuantiles_def Let_def)
    then obtain b0 where b: "b = finishBand (bandLoop lo hi trs) b0"
      by blast
    have "b_name b = b_name b0" by (simp add: b finishBand_def Let_def)
    then show ?thesis
      using lo hi lt by (simp add: b finishBand_def Let_def)
  next
    case no: False
    have "b = emptyBand AllTier (dispMin ?sp) (dispMax ?sp)"
      using assms False no
      by (auto simp: priceBandsFromQuantiles_def Let_def split: option.splits if_splits)
    then show ?thesis by (simp add: emptyBand_def)
  qed
qed

theorem priceBands_laplace_witness:
  "\<lparr> b_name = Low, b_min = 1, b_max = 1, b_viewToCart = 2 / 3, b_wishToCart = 0,
      b_nView = 1, b_nWish = 0 \<rparr> \<in> set (bands (priceBandsFromQuantiles bandMeta bandTrs)) \<and>
   tLow (robustPriceSplits (metaPrices bandMeta)) = Some 1 \<and>
   tHigh (robustPriceSplits (metaPrices bandMeta)) = Some bandHigh \<and>
   viewCart (hits (bandLoop 1 bandHigh bandTrs) Low) = 1 \<and>
   (2 / 3 :: real) = (of_int (viewCart (hits (bandLoop 1 bandHigh bandTrs) Low)) + 1) / (of_int 1 + 2)"
proof -
  let ?b = "\<lparr> b_name = Low, b_min = 1, b_max = 1, b_viewToCart = 2 / 3, b_wishToCart = 0,
               b_nView = 1, b_nWish = 0 \<rparr>"
  have "finishBand (bandLoop 1 bandHigh bandTrs) (emptyBand Low 1 1) = ?b"
    using bandLoop_bandTrs by (simp add: finishBand_def emptyBand_def Let_def)
  then have mem: "?b \<in> set (bands (priceBandsFromQuantiles bandMeta bandTrs))"
    by (simp add: priceBands_bandMeta)
  from priceBands_laplace [OF mem] show ?thesis
    using mem bandLoop_bandTrs by (simp add: metaPrices_bandMeta splits_band)
qed

text \<open>
  Claim C7 as stated gives every band the smoothed rate, so that a band without samples
  would get \<open>(0 + 1) / (0 + 2) = 1 / 2\<close>. With the four sample items and no transition,
  the Low band is emitted with no sample and a rate of 0.
\<close>

theorem priceBands_zero_sample_counterexample:
  "priceBandsFromQuantiles bandMeta [] =
     \<lparr> bands = [emptyBand Low 1 1, emptyBand Mid 1 bandHigh, emptyBand High bandHigh 3] \<rparr> \<and>
   b_nView (emptyBand Low 1 1) = 0 \<and>
   b_viewToCart (emptyBand Low 1 1) = 0 \<and>
   (of_int (viewCart (hits (bandLoop 1 bandHigh []) Low)) + 1)
     / (of_int (bt_view (totals (bandLoop 1 bandHigh []) Low)) + 2) = (1 / 2 :: real)"
  by (simp add: priceBands_bandMeta bandLoop_def finishBand_empty) (simp add: emptyBand_def)

subsection \<open>Recommendations\<close>

lemma map_of_pushReco:
  "map_of (pushReco a r acc) k =
     (if k = a then Some (orElse (map_of acc a) [] @ [r]) else map_of acc k)"
  by (simp add: pushReco_def update_conv')

lemma recoSym_step:
  assumes "recoSym acc"
  shows "recoSym (pushReco b \<lparr> rc_item = a, rc_score = s \<rparr>
                   (pushReco a \<lparr> rc_item = b, rc_score = s \<rparr> acc))"
  unfolding recoSym_def
proof (intro allI impI)
  fix x y t lx
  let ?acc' = "pushReco b \<lparr> rc_item = a, rc_score = s \<rparr> (pushReco a \<lparr> rc_item = b, rc_score = s \<rparr> acc)"
  assume lx: "map_of ?acc' x = Some lx" and mem: "\<lparr> rc_item = y, rc_score = t \<rparr> \<in> set lx"
  have sym0: "\<And>x y t lx. map_of acc x = Some lx \<Longrightarrow> \<lparr> rc_item = y, rc_score = t \<rparr> \<in> set lx \<Longrightarrow>
              \<exists>ly. map_of acc y = Some ly \<and> \<lparr> rc_item = x, rc_score = t \<rparr> \<in> set ly"
    using assms unfolding recoSym_def by blast
  have grow: "\<exists>ly'. map_of ?acc' y = Some ly' \<and> set ly \<subseteq> set ly'" if "map_of acc y = Some ly" for y ly
    using that by (auto simp: map_of_pushReco orElse_def)
  have new1: "\<exists>l. map_of ?acc' a = Some l \<and> \<lparr> rc_item = b, rc_score = s \<rparr> \<in> set l"
    by (auto simp: map_of_pushReco orElse_def split: option.splits)
  have new2: "\<exists>l. map_of ?acc' b = Some l \<and> \<lparr> rc_item = a, rc_score = s \<rparr> \<in> set l"
    by (auto simp: map_of_pushReco orElse_def split: option.splits)
  from lx mem consider
      (old) lx0 where "map_of acc x = Some lx0" "\<lparr> rc_item = y, rc_score = t \<rparr> \<in> set lx0"
    | (a) "x = a" "y = b" "t = s"
    | (b) "x = b" "y = a" "t = s"
    by (auto simp: map_of_pushReco orElse_def split: if_splits option.splits)
  then show "\<exists>ly. map_of ?acc' y = Some ly \<and> \<lparr> rc_item = x, rc_score = t \<rparr> \<in> set ly"
  proof cases
    case old
    from sym0 [OF this] obtain ly where "map_of acc y = Some ly" "\<lparr> rc_item = x, rc_score = t \<rparr> \<in> set ly"
      by blast
    then show ?thesis using grow by blast
  next
    case a
    then show ?thesis using new2 by simp
  next
    case b
    then show ?thesis using new1 by simp
  qed
qed

lemma recoSym_recoStep: "recoSym acc \<Longrightarrow> recoSym (recoStep freq entry acc)"
  by (simp add: recoStep_def Let_def split_beta recoSym_step)

lemma recoSym_fold: "recoSym acc \<Longrightarrow> recoSym (fold (recoStep freq) entries acc)"
  by (induction entries arbitrary: acc) (simp_all add: recoSym_recoStep)

lemma recoSym_rawRecos: "recoSym (rawRecos st)"
  unfolding rawRecos_def by (rule recoSym_fold) (simp add: recoSym_def)

lemma map_of_recos:
  "map_of (fst (cooccurrenceRecos ss)) k = map_option topRecos (map_of (rawRecos (coocLoop ss)) k)"
proof -
  have "map_of (map (\<lambda>(key, rs). (key, topRecos rs)) xs) k = map_option topRecos (map_of xs k)" for xs
    by (induction xs) auto
  then show ?thesis by (simp add: cooccurrenceRecos_def Let_def)
qed

lemma set_topRecos: "set (topRecos rs) \<subseteq> set rs"
  unfolding topRecos_def using set_take_subset [of 10 "sort_key (\<lambda>r. - rc_score r) rs"] by simp

lemma set_topRecos_short: "length rs \<le> 10 \<Longrightarrow> set (topRecos rs) = set rs"
  by (simp add: topRecos_def)

lemma reco_loop:
  "coocLoop recoSessions =
     \<lparr> cs_pairs = [(''b|c0'', 1), (''b|c1'', 1), (''b|c2'', 1), (''b|c3'', 1), (''b|c4'', 1),
                   (''b|c5'', 1), (''b|c6'', 1), (''b|c7'', 1), (''b|c8'', 1), (''b|c9'', 1),
                   (''a|b'', 1)],
       cs_freq = [(''b'', 11), (''c0'', 1), (''c1'', 1), (''c2'', 1), (''c3'', 1), (''c4'', 1),
                  (''c5'', 1), (''c6'', 1), (''c7'', 1), (''c8'', 1), (''c9'', 1), (''a'', 1)] \<rparr>"
  by code_simp

lemma reco_raw:
  "rawRecos (coocLoop recoSessions) =
     [(''b'', [\<lparr> rc_item = ''c0'', rc_score = sampleScore \<rparr>, \<lparr> rc_item = ''c1'', rc_score = sampleScore \<rparr>,
               \<lparr> rc_item = ''c2'', rc_score = sampleScore \<rparr>, \<lparr> rc_item = ''c3'', rc_score = sampleScore \<rparr>,
               \<lparr> rc_item = ''c4'', rc_score = sampleScore \<rparr>, \<lparr> rc_item = ''c5'', rc_score = sampleScore \<rparr>,
               \<lparr> rc_item = ''c6'', rc_score = sampleScore \<rparr>, \<lparr> rc_item = ''c7'', rc_score = sampleScore \<rparr>,
               \<lparr> rc_item = ''c8'', rc_score = sampleScore \<rparr>, \<lparr> rc_item = ''c9'', rc_score = sampleScore \<rparr>,
               \<lparr> rc_item = ''a'', rc_score = sampleScore \<rparr>]),
      (''c0'', [\<lparr> rc_item = ''b'', rc_score = sampleScore \<rparr>]),
      (''c1'', [\<lparr> rc_item = ''b'', rc_score = sampleScore \<rparr>]),
      (''c2'', [\<lparr> rc_item = ''b'', rc_score = sampleScore \<rparr>]),
      (''c3'', [\<lparr> rc_item = ''b'', rc_score = sampleScore \<rparr>]),
      (''c4'', [\<lparr> rc_item = ''b'', rc_score = sampleScore \<rparr>]),
      (''c5'', [\<lparr> rc_item = ''b'', rc_score = sampleScore \<rparr>]),
      (''c6'', [\<lparr> rc_item = ''b'', rc_score = sampleScore \<rparr>]),
      (''c7'', [\<lparr> rc_item = ''b'', rc_score = sampleScore \<rparr>]),
      (''c8'', [\<lparr> rc_item = ''b'', rc_score = sampleScore \<rparr>]),
      (''c9'', [\<lparr> rc_item = ''b'', rc_score = sampleScore \<rparr>]),
      (''a'', [\<lparr> rc_item = ''b'', rc_score = sampleScore \<rparr>])]"
  unfolding reco_loop
  by (simp add: rawRecos_def recoStep_def splitKey_def pushReco_def pairScore_def orElse_def sampleScore_def Let_def)

lemma topRecos_ties:
  "topRecos (map (\<lambda>i. \<lparr> rc_item = i, rc_score = s \<rparr>) items)
     = take 10 (map (\<lambda>i. \<lparr> rc_item = i, rc_score = s \<rparr>) items)"
proof -
  have "sorted (map (\<lambda>r. - rc_score r) (map (\<lambda>i. \<lparr> rc_item = i, rc_score = s \<rparr>) items))"
    by (induction items) simp_all
  then show ?thesis by (simp add: topRecos_def sort_key_id_if_sorted)
qed

lemma reco_b:
  "map_of (fst (cooccurrenceRecos recoSessions)) ''b'' =
     Some (map (\<lambda>i. \<lparr> rc_item = i, rc_score = sampleScore \<rparr>)
            [''c0'', ''c1'', ''c2'', ''c3'', ''c4'', ''c5'', ''c6'', ''c7'', ''c8'', ''c9''])"
proof -
  have "map_of (rawRecos (coocLoop recoSessions)) ''b'' =
     Some (map (\<lambda>i. \<lparr> rc_item = i, rc_score = sampleScore \<rparr>)
            [''c0'', ''c1'', ''c2'', ''c3'', ''c4'', ''c5'', ''c6'', ''c7'', ''c8'', ''c9'', ''a''])"
    by (simp add: reco_raw)
  then show ?thesis
    unfolding map_of_recos by (simp only: option.map topRecos_ties) simp
qed

lemma reco_a:
  "map_of (fst (cooccurrenceRecos recoSessions)) ''a'' =
     Some [\<lparr> rc_item = ''b'', rc_score = sampleScore \<rparr>]"
  unfolding map_of_recos by (simp add: reco_raw topRecos_def)

lemma reco_c0:
  "map_of (rawRecos (coocLoop recoSessions)) ''c0'' = Some [\<lparr> rc_item = ''b'', rc_score = sampleScore \<rparr>]"
  by (simp add: reco_raw)

text \<open>
  Claim C3, as the code has it. If the list of item \<open>a\<close> contains item \<open>b\<close> with score
  \<open>s\<close>, then the partner list of \<open>b\<close> before the cut to the 10 best contains \<open>a\<close> with the
  same score \<open>s\<close>; the list of \<open>b\<close> is the 10 best of that partner list, so it contains
  \<open>a\<close> with score \<open>s\<close> whenever \<open>b\<close> has at most 10 partners.
\<close>

theorem recos_symmetric:
  assumes "map_of (fst (cooccurrenceRecos ss)) a = Some la"
    and "\<lparr> rc_item = b, rc_score = s \<rparr> \<in> set la"
  shows "\<exists>rb. map_of (rawRecos (coocLoop ss)) b = Some rb \<and>
              \<lparr> rc_item = a, rc_score = s \<rparr> \<in> set rb \<and>
              map_of (fst (cooccurrenceRecos ss)) b = Some (topRecos rb) \<and>
              (length rb \<le> 10 \<longrightarrow> \<lparr> rc_item = a, rc_score = s \<rparr> \<in> set (topRecos rb))"
proof -
  obtain ra where ra: "map_of (rawRecos (coocLoop ss)) a = Some ra" and la: "la = topRecos ra"
    using assms(1) by (auto simp: map_of_recos)
  have "\<lparr> rc_item = b, rc_score = s \<rparr> \<in> set ra"
    using assms(2) set_topRecos [of ra] by (auto simp: la)
  then obtain rb where rb: "map_of (rawRecos (coocLoop ss)) b = Some rb"
    and mem: "\<lparr> rc_item = a, rc_score = s \<rparr> \<in> set rb"
    using recoSym_rawRecos [of "coocLoop ss"] ra unfolding recoSym_def by blast
  show ?thesis
    using rb mem by (auto simp: map_of_recos set_topRecos_short)
qed

theorem recos_symmetric_witness:
  "map_of (fst (cooccurrenceRecos recoSessions)) ''b'' =
     Some (map (\<lambda>i. \<lparr> rc_item = i, rc_score = 1 / sqrt 11 \<rparr>)
            [''c0'', ''c1'', ''c2'', ''c3'', ''c4'', ''c5'', ''c6'', ''c7'', ''c8'', ''c9'']) \<and>
   (\<exists>lb. map_of (fst (cooccurrenceRecos recoSessions)) ''c0'' = Some lb \<and>
         \<lparr> rc_item = ''b'', rc_score = 1 / sqrt 11 \<rparr> \<in> set lb)"
proof -
  have "\<lparr> rc_item = ''c0'', rc_score = sampleScore \<rparr> \<in>
          set (map (\<lambda>i. \<lparr> rc_item = i, rc_score = sampleScore \<rparr>)
            [''c0'', ''c1'', ''c2'', ''c3'', ''c4'', ''c5'', ''c6'', ''c7'', ''c8'', ''c9''])"
    by simp
  from recos_symmetric [OF reco_b this]
  have "\<exists>lb. map_of (fst (cooccurrenceRecos recoSessions)) ''c0'' = Some lb \<and>
         \<lparr> rc_item = ''b'', rc_score = sampleScore \<rparr> \<in> set lb"
    by (auto simp: reco_c0)
  then show ?thesis using reco_b by (simp add: sampleScore_def)
qed

text \<open>
  Claim C3 as stated ignores the cut. In the sample, \<open>b\<close> has eleven partners of equal
  score; the sort is stable and \<open>a\<close>, the last one, is cut. So \<open>a\<close> recommends \<open>b\<close>, and
  \<open>b\<close> does not recommend \<open>a\<close>.
\<close>

theorem recos_truncation_counterexample:
  "map_of (fst (cooccurrenceRecos recoSessions)) ''a'' =
     Some [\<lparr> rc_item = ''b'', rc_score = 1 / sqrt 11 \<rparr>] \<and>
   map_option (map rc_item) (map_of (fst (cooccurrenceRecos recoSessions)) ''b'') =
     Some [''c0'', ''c1'', ''c2'', ''c3'', ''c4'', ''c5'', ''c6'', ''c7'', ''c8'', ''c9'']"
  by (simp add: reco_a reco_b sampleScore_def)

subsection \<open>Identifiers\<close>

lemma strId_seen:
  "r \<in> seen \<Longrightarrow> quiet (deref h r) \<Longrightarrow> strId h seen (JRef r) = Inr None"
  by (subst strId.simps) (simp add: falsy_def Let_def quiet_def split: sum.splits)

lemma strId_closed:
  "idClosed h P \<Longrightarrow> v = JRef r \<Longrightarrow> r \<in> P \<Longrightarrow> strId h seen v = Inr None"
proof (induction h seen v arbitrary: r rule: strId.induct)
  case (1 h seen v)
  from "1.prems" obtain r' where r: "r < length h" and q: "quiet (h ! r)"
    and oid: "oidOf (h ! r) = None" and r': "r' \<in> P"
    and next_id: "map_of (props (h ! r)) ''_id'' = Some (JRef r')"
    unfolding idClosed_def by blast
  from q obtain called where called: "callToString (h ! r) = Inr called"
    and hex: "\<not> printsObjectId called"
    by (auto simp: quiet_def split: sum.splits)
  show ?case
  proof (cases "r \<in> seen")
    case True
    then show ?thesis using q r "1.prems"(2) by (simp add: strId_seen deref_def)
  next
    case False
    have "strId h (insert r seen) (JRef r') = Inr None"
      using "1.IH" [of r "deref h r" called "JRef r'" r'] "1.prems" False r called hex oid
        next_id r'
      by (simp add: falsy_def deref_def)
    then show ?thesis
      using False r called hex oid next_id "1.prems"(2)
      by (subst strId.simps) (simp add: falsy_def deref_def Let_def)
  qed
qed

text \<open>
  An object whose \<^verbatim>\<open>toString\<close> is no function, or throws, makes the call throw, whatever
  \<open>seen\<close> holds; so does an unseen object without \<^verbatim>\<open>toString\<close>, \<^verbatim>\<open>$oid\<close> and \<^verbatim>\<open>_id\<close>.
\<close>

lemma strId_not_callable:
  "toStringOf (deref h r) = NotCallable \<Longrightarrow> strId h seen (JRef r) = Inl NotAFunction"
  by (subst strId.simps) (simp add: falsy_def Let_def callToString_def)

lemma strId_raises:
  "toStringOf (deref h r) = Raises \<Longrightarrow> strId h seen (JRef r) = Inl ToStringRaised"
  by (subst strId.simps) (simp add: falsy_def Let_def callToString_def)

lemma strId_cannot_convert:
  "toStringOf (deref h r) = NoToString \<Longrightarrow> r \<notin> seen \<Longrightarrow> oidOf (deref h r) = None \<Longrightarrow>
   map_of (props (deref h r)) ''_id'' = None \<Longrightarrow> strId h seen (JRef r) = Inl CannotConvert"
  by (subst strId.simps)
     (simp add: falsy_def Let_def callToString_def printsObjectId_def fallback_def)

lemma strId_examples:
  "strId [] {} (JStr ''abc'') = Inr (Some ''abc'')"
  "strId [] {} JNull = Inr None"
  "strId [\<lparr> props = [(''$oid'', JStr ''x1'')], toStringOf = Returns ''[object Object]'' \<rparr>] {} (JRef 0)
     = Inr (Some ''x1'')"
  "strId [\<lparr> props = [(''_id'', JRef 1)], toStringOf = Returns ''[object Object]'' \<rparr>,
          \<lparr> props = [(''_id'', JRef 0)], toStringOf = Returns ''[object Object]'' \<rparr>] {} (JRef 0)
     = Inr None"
  "strId [\<lparr> props = [], toStringOf = Returns ''507f1f77bcf86cd799439011'' \<rparr>] {} (JRef 0)
     = Inr (Some ''507f1f77bcf86cd799439011'')"
  "strId [\<lparr> props = [(''_id'', JRef 1)], toStringOf = Returns ''[object Object]'' \<rparr>,
          \<lparr> props = [(''toString'', JNum 1)], toStringOf = NotCallable \<rparr>] {} (JRef 0)
     = Inl NotAFunction"
  by code_simp+

lemma idClosed_selfRef: "idClosed selfRef {0}"
  by (simp add: idClosed_def selfRef_def oidOf_def quiet_def callToString_def printsObjectId_def
      isObjectIdText_def)

lemma strId_selfRef: "strId selfRef seen (JRef 0) = Inr None"
  using strId_closed [OF idClosed_selfRef, of "JRef 0" 0 seen] by simp

text \<open>
  Claim C9. \<open>strId\<close> is a total function: its recursion is accepted with the number of
  heap objects not yet in \<open>seen\<close> as the measure, so it never recurses forever, on
  circular structures either; and on a circular structure of quiet objects it returns
  \<open>null\<close> (\<open>strId_seen\<close>, \<open>strId_closed\<close>). But it does throw. The object \<open>brokenRef\<close> is its
  own \<open>_id\<close>, like \<open>selfRef\<close>, and its \<^verbatim>\<open>toString\<close> is the number 1. For \<open>selfRef\<close> the
  call returns \<open>null\<close>; for \<open>brokenRef\<close> line 160 finds \<^verbatim>\<open>"toString" in value\<close> true, line
  161 calls \<^verbatim>\<open>value.toString()\<close> and the call throws a \<open>TypeError\<close>, with an empty
  \<open>seen\<close> and also with the object already in \<open>seen\<close>: the circular reference is never
  detected. Line 190 guards the same call with \<^verbatim>\<open>typeof obj.toString === "function"\<close>.
\<close>

theorem strId_throws_on_cycle:
  "map_of (props (brokenRef ! 0)) ''_id'' = Some (JRef 0) \<and>
   strId brokenRef {} (JRef 0) = Inl NotAFunction \<and>
   strId brokenRef {0} (JRef 0) = Inl NotAFunction \<and>
   map_of (props (selfRef ! 0)) ''_id'' = Some (JRef 0) \<and>
   strId selfRef {} (JRef 0) = Inr None"
proof -
  have "toStringOf (deref brokenRef 0) = NotCallable"
    by (simp add: deref_def brokenRef_def)
  then have "strId brokenRef seen (JRef 0) = Inl NotAFunction" for seen
    by (rule strId_not_callable)
  then show ?thesis
    by (simp add: strId_selfRef) (simp add: brokenRef_def selfRef_def)
qed

subsection \<open>Reprojecting the whole range\<close>

text \<open>Apportioning a total over weights that already sum to it changes nothing.\<close>

lemma dt_base_same:
  assumes "\<And>w. w \<in> set ws \<Longrightarrow> 0 \<le> w"
  shows "dt_base (sum_list ws) (map real_of_int ws) = ws"
proof -
  have "\<forall>w \<in> set ws. 0 \<le> w" using assms by blast
  then have nonneg: "dt_nonneg (map real_of_int ws) = map real_of_int ws"
    by (auto simp: dt_nonneg_def not_less)
  have s: "sum_list (map real_of_int ws) = real_of_int (sum_list ws)"
    by (induction ws) simp_all
  show ?thesis
  proof (cases "sum_list ws = 0")
    case True
    have "w = 0" if "w \<in> set ws" for w
      using True assms that by (metis sum_list_nonneg_eq_0_iff)
    then have "map (\<lambda>w. \<lfloor>real_of_int w / dt_sum (map real_of_int ws) * real_of_int (sum_list ws)\<rfloor>) ws = ws"
      using True by (simp add: map_idI)
    then show ?thesis by (simp add: dt_base_def dt_raw_def nonneg comp_def)
  next
    case False
    then have "dt_sum (map real_of_int ws) = real_of_int (sum_list ws)"
      by (simp add: dt_sum_def nonneg s)
    then show ?thesis using False by (simp add: dt_base_def dt_raw_def nonneg comp_def)
  qed
qed

lemma distributeToTotal_same:
  assumes "\<And>w. w \<in> set ws \<Longrightarrow> 0 \<le> w"
  shows "distributeToTotal (sum_list ws) (map real_of_int ws) = Inr ws"
  by (simp add: distributeToTotal_def Let_def dt_rem_def dt_base_same [OF assms])

text \<open>With the ratio 1, scaling and rounding change nothing.\<close>

lemma js_round_int: "js_round (real_of_int c) = c"
  by (simp add: js_round_def)

lemma js_round_nat: "nat (js_round (real n)) = n"
  using js_round_int [of "int n"] by simp

lemma rp_scaledCounts_one: "rp_scaledCounts 1 counts = counts"
  by (simp add: rp_scaledCounts_def js_round_int map_idI)

lemma scaleArray_one: "scaleArray 1 arr = arr"
  by (simp add: scaleArray_def js_round_nat)

lemma rp_priceRangeData_one: "rp_priceRangeData 1 prd = prd"
  by (simp add: rp_priceRangeData_def scaleArray_one)

lemma rp_priceBands_one: "rp_priceBands 1 pb = pb"
  by (cases pb) (simp add: rp_priceBands_def js_round_int map_idI)

lemma rp_frequentBundles_one: "rp_frequentBundles 1 bs = bs"
  by (simp add: rp_frequentBundles_def map_idI)

text \<open>The counts of the service form a 5 by 5 matrix.\<close>

lemma square5_bumpCell:
  assumes "square5 counts"
  shows "square5 (bumpCell ia ib counts)"
proof (cases "ia < length counts")
  case True
  then have "length (counts ! ia) = 5" using assms by (simp add: square5_def)
  then show ?thesis
    using assms unfolding square5_def bumpCell_def
    by (auto dest!: set_update_subset_insert [THEN subsetD])
next
  case False
  then show ?thesis using assms by (simp add: bumpCell_def not_less list_update_beyond)
qed

lemma square5_fold:
  "square5 counts \<Longrightarrow>
   square5 (fold (\<lambda>(a, b) counts. bumpCell (stateIndex (te_type a)) (stateIndex (te_type b)) counts) trs counts)"
  by (induction trs arbitrary: counts) (auto simp: square5_bumpCell)

lemma square5_transitionCounts: "square5 (transitionCounts trs)"
  unfolding transitionCounts_def
  by (rule square5_fold) (simp add: square5_def states_def)

text \<open>The links of a reprojection are the links of the service without the self-loops.\<close>

lemma rp_links_filter:
  assumes "square5 counts"
  shows "rp_links counts = filter (\<lambda>l. l_source l \<noteq> l_target l) (serviceLinks counts)"
proof -
  have n: "length states = 5" by (simp add: states_def)
  have len: "length counts = length states"
    using assms by (simp add: square5_def n)
  have row: "length (counts ! i) = length states" if "i < length states" for i
    using assms that by (simp add: square5_def n)
  have cell: "filter (\<lambda>l. l_source l \<noteq> l_target l)
                (let v = counts ! i ! j
                 in if v > 0 then [\<lparr> l_source = i, l_target = j, l_value = v \<rparr>] else [])
              = (let v = counts ! i ! j
                 in if v > 0 \<and> i \<noteq> j then [\<lparr> l_source = i, l_target = j, l_value = v \<rparr>] else [])"
    for i j
    by (simp add: Let_def)
  have "filter (\<lambda>l. l_source l \<noteq> l_target l) (serviceLinks counts)
        = concat (map (\<lambda>i. concat (map (\<lambda>j. let v = counts ! i ! j
                                               in if v > 0 \<and> i \<noteq> j
                                                  then [\<lparr> l_source = i, l_target = j, l_value = v \<rparr>]
                                                  else [])
                                        [0..<length states]))
                      [0..<length states])"
    unfolding serviceLinks_def filter_concat map_map comp_def cell ..
  also have "\<dots> = rp_links counts"
    unfolding rp_links_def len
    by (rule arg_cong [where f = concat], rule map_cong [OF refl]) (simp add: row)
  finally show ?thesis by simp
qed

subsection \<open>What the leak loop computes\<close>

lemma map_of_bumpBy:
  "orElse (map_of (bumpBy k n m) k') 0 = orElse (map_of m k') 0 + (if k' = k then n else 0)"
  by (simp add: bumpBy_def update_conv' orElse_def)

lemma keys_bumpBy: "fst ` set (bumpBy k n m) = insert k (fst ` set m)"
  by (simp add: bumpBy_def dom_update)

text \<open>Per item, the loop sums the adds and the removes of the events of that item.\<close>

lemma leakStep_adds:
  "orElse (map_of (ls_adds (leakStep e st)) k) 0
     = orElse (map_of (ls_adds st) k) 0 + (if ev_itemId e = k then orElse (ev_add e) 0 else 0)"
  by (auto simp: leakStep_def Let_def map_of_bumpBy)

lemma leakStep_removes:
  "orElse (map_of (ls_removes (leakStep e st)) k) 0
     = orElse (map_of (ls_removes st) k) 0 + (if ev_itemId e = k then orElse (ev_remove e) 0 else 0)"
  by (auto simp: leakStep_def Let_def map_of_bumpBy)

lemma leakStep_totals:
  "tAdds (leakStep e st) = tAdds st + orElse (ev_add e) 0"
  "tRem (leakStep e st) = tRem st + orElse (ev_remove e) 0"
  by (auto simp: leakStep_def Let_def)

lemma fold_leakStep_adds:
  "orElse (map_of (ls_adds (fold leakStep es st)) k) 0
     = orElse (map_of (ls_adds st) k) 0
       + sum_list (map (\<lambda>e. orElse (ev_add e) 0) (filter (\<lambda>e. ev_itemId e = k) es))"
  by (induction es arbitrary: st) (simp_all add: leakStep_adds)

lemma fold_leakStep_removes:
  "orElse (map_of (ls_removes (fold leakStep es st)) k) 0
     = orElse (map_of (ls_removes st) k) 0
       + sum_list (map (\<lambda>e. orElse (ev_remove e) 0) (filter (\<lambda>e. ev_itemId e = k) es))"
  by (induction es arbitrary: st) (simp_all add: leakStep_removes)

lemma fold_leakStep_totals:
  "tAdds (fold leakStep es st) = tAdds st + sum_list (map (\<lambda>e. orElse (ev_add e) 0) es)"
  "tRem (fold leakStep es st) = tRem st + sum_list (map (\<lambda>e. orElse (ev_remove e) 0) es)"
  by (induction es arbitrary: st) (simp_all add: leakStep_totals)

lemma leakStep_keys:
  "fst ` set (ls_adds (leakStep e st))
     = fst ` set (ls_adds st) \<union> (if orElse (ev_add e) 0 \<noteq> 0 then {ev_itemId e} else {})"
  "fst ` set (ls_removes (leakStep e st))
     = fst ` set (ls_removes st) \<union> (if orElse (ev_remove e) 0 \<noteq> 0 then {ev_itemId e} else {})"
  by (auto simp: leakStep_def Let_def keys_bumpBy)

lemma fold_leakStep_keys:
  "fst ` set (ls_adds (fold leakStep es st))
     = fst ` set (ls_adds st) \<union> ev_itemId ` {e \<in> set es. orElse (ev_add e) 0 \<noteq> 0}"
  "fst ` set (ls_removes (fold leakStep es st))
     = fst ` set (ls_removes st) \<union> ev_itemId ` {e \<in> set es. orElse (ev_remove e) 0 \<noteq> 0}"
  by (induction es arbitrary: st) (auto simp: leakStep_keys split: if_splits)

text \<open>Summing, key by key, what the events of each key carry gives the sum over all events.\<close>

lemma sum_list_delta:
  "distinct ks \<Longrightarrow> sum_list (map (\<lambda>k. if x = k then c else (0::int)) ks) = (if x \<in> set ks then c else 0)"
  by (induction ks) auto

lemma sum_list_by_key:
  assumes "distinct ks" and "\<And>e. e \<in> set es \<Longrightarrow> f e \<noteq> 0 \<Longrightarrow> key e \<in> set ks"
  shows "sum_list (map (\<lambda>k. sum_list (map f (filter (\<lambda>e. key e = k) es))) ks)
           = (sum_list (map f es) :: int)"
  using assms(2)
proof (induction es)
  case Nil
  then show ?case by simp
next
  case (Cons e es)
  have "sum_list (map (\<lambda>k. sum_list (map f (filter (\<lambda>e. key e = k) (e # es)))) ks)
        = sum_list (map (\<lambda>k. (if key e = k then f e else 0)
                              + sum_list (map f (filter (\<lambda>e. key e = k) es))) ks)"
    by (intro arg_cong [where f = sum_list] map_cong refl) simp
  also have "\<dots> = sum_list (map (\<lambda>k. if key e = k then f e else 0) ks)
                  + sum_list (map (\<lambda>k. sum_list (map f (filter (\<lambda>e. key e = k) es))) ks)"
    by (simp add: sum_list_addf)
  also have "sum_list (map (\<lambda>k. if key e = k then f e else 0) ks) = f e"
    using Cons.prems [of e] by (auto simp: sum_list_delta [OF assms(1)])
  also have "sum_list (map (\<lambda>k. sum_list (map f (filter (\<lambda>e. key e = k) es))) ks) = sum_list (map f es)"
    using Cons.prems by (intro Cons.IH) simp
  finally show ?case by simp
qed

lemma distinct_fold_unique:
  "distinct acc \<Longrightarrow> distinct (fold (\<lambda>x acc. if x \<in> set acc then acc else acc @ [x]) xs acc)"
  by (induction xs arbitrary: acc) auto

lemma distinct_uniqueList: "distinct (uniqueList xs)"
  by (simp add: uniqueList_def distinct_fold_unique)

lemma sum_list_map_concat:
  "sum_list (map f (concat xss)) = (sum_list (map (\<lambda>xs. sum_list (map f xs)) xss) :: int)"
  by (induction xss) simp_all

text \<open>
  In the cart events of collected sessions every remove comes with an add of the same
  item: among the events of any set of items, the removes do not outnumber the adds.
\<close>

lemma cartEvents_balance:
  "0 \<le> sum_list (map (\<lambda>e. orElse (ev_remove e) 0) (filter (\<lambda>e. P (ev_itemId e)) (cartEvents ts raws))) \<and>
   sum_list (map (\<lambda>e. orElse (ev_remove e) 0) (filter (\<lambda>e. P (ev_itemId e)) (cartEvents ts raws)))
     \<le> sum_list (map (\<lambda>e. orElse (ev_add e) 0) (filter (\<lambda>e. P (ev_itemId e)) (cartEvents ts raws)))"
proof (induction raws)
  case Nil
  then show ?case by (simp add: cartEvents_def)
next
  case (Cons raw raws)
  have split: "cartEvents ts (raw # raws) = cartEvents ts [raw] @ cartEvents ts raws"
    by (simp add: cartEvents_def)
  have one: "0 \<le> sum_list (map (\<lambda>e. orElse (ev_remove e) 0) (filter (\<lambda>e. P (ev_itemId e)) (cartEvents ts [raw]))) \<and>
     sum_list (map (\<lambda>e. orElse (ev_remove e) 0) (filter (\<lambda>e. P (ev_itemId e)) (cartEvents ts [raw])))
       \<le> sum_list (map (\<lambda>e. orElse (ev_add e) 0) (filter (\<lambda>e. P (ev_itemId e)) (cartEvents ts [raw])))"
    by (simp add: cartEvents_def Let_def orElse_def split: option.splits)
  show ?case unfolding split using one Cons.IH by simp
qed

lemma collected_balance:
  "0 \<le> sum_list (map (\<lambda>e. orElse (ev_remove e) 0)
          (filter (\<lambda>e. P (ev_itemId e)) (concat (map se_carts (map collectSessionEvents docs))))) \<and>
   sum_list (map (\<lambda>e. orElse (ev_remove e) 0)
          (filter (\<lambda>e. P (ev_itemId e)) (concat (map se_carts (map collectSessionEvents docs)))))
     \<le> sum_list (map (\<lambda>e. orElse (ev_add e) 0)
          (filter (\<lambda>e. P (ev_itemId e)) (concat (map se_carts (map collectSessionEvents docs)))))"
proof (induction docs)
  case Nil
  then show ?case by simp
next
  case (Cons doc docs)
  show ?case
    using Cons.IH cartEvents_balance [of P "orElse (doc_createdAt doc) (doc_now doc)" "cartItems doc"]
    by (simp add: se_carts_collect)
qed

lemma orElse_simps: "orElse None d = d" "orElse (Some x) d = x"
  by (simp_all add: orElse_def)

text \<open>The rows of the service, before sorting.\<close>

lemma leak_keys_cover:
  assumes "e \<in> set (concat (map se_carts ss))"
  shows "orElse (ev_add e) 0 \<noteq> 0 \<Longrightarrow>
           ev_itemId e \<in> set (uniqueList (map fst (ls_adds (leakLoop ss)) @ map fst (ls_removes (leakLoop ss))))"
    and "orElse (ev_remove e) 0 \<noteq> 0 \<Longrightarrow>
           ev_itemId e \<in> set (uniqueList (map fst (ls_adds (leakLoop ss)) @ map fst (ls_removes (leakLoop ss))))"
  using assms unfolding set_uniqueList set_append set_map leakLoop_def fold_leakStep_keys
  by auto

lemma leakRow_adds:
  "lr_adds (leakRow (leakLoop ss) k)
     = sum_list (map (\<lambda>e. orElse (ev_add e) 0) (filter (\<lambda>e. ev_itemId e = k) (concat (map se_carts ss))))"
  by (simp add: leakRow_def Let_def leakLoop_def fold_leakStep_adds orElse_simps)

lemma leakRow_removes:
  "lr_removes (leakRow (leakLoop ss) k)
     = sum_list (map (\<lambda>e. orElse (ev_remove e) 0) (filter (\<lambda>e. ev_itemId e = k) (concat (map se_carts ss))))"
  by (simp add: leakRow_def Let_def leakLoop_def fold_leakStep_removes orElse_simps)

lemma leak_sum_adds:
  "sum_list (map lr_adds (lk_items (leakAnalytics ss meta)))
     = sum_list (map (\<lambda>e. orElse (ev_add e) 0) (concat (map se_carts ss)))"
proof -
  let ?keys = "uniqueList (map fst (ls_adds (leakLoop ss)) @ map fst (ls_removes (leakLoop ss)))"
  have "sum_list (map lr_adds (lk_items (leakAnalytics ss meta)))
        = sum_list (map (\<lambda>k. lr_adds (leakRow (leakLoop ss) k)) ?keys)"
    by (simp add: leakAnalytics_def Let_def sum_list_map_sort_key comp_def)
  also have "\<dots> = sum_list (map (\<lambda>e. orElse (ev_add e) 0) (concat (map se_carts ss)))"
    unfolding leakRow_adds
    by (rule sum_list_by_key) (simp_all add: distinct_uniqueList leak_keys_cover)
  finally show ?thesis .
qed

lemma leak_sum_removes:
  "sum_list (map lr_removes (lk_items (leakAnalytics ss meta)))
     = sum_list (map (\<lambda>e. orElse (ev_remove e) 0) (concat (map se_carts ss)))"
proof -
  let ?keys = "uniqueList (map fst (ls_adds (leakLoop ss)) @ map fst (ls_removes (leakLoop ss)))"
  have "sum_list (map lr_removes (lk_items (leakAnalytics ss meta)))
        = sum_list (map (\<lambda>k. lr_removes (leakRow (leakLoop ss) k)) ?keys)"
    by (simp add: leakAnalytics_def Let_def sum_list_map_sort_key comp_def)
  also have "\<dots> = sum_list (map (\<lambda>e. orElse (ev_remove e) 0) (concat (map se_carts ss)))"
    unfolding leakRow_removes
    by (rule sum_list_by_key) (simp_all add: distinct_uniqueList leak_keys_cover)
  finally show ?thesis .
qed

text \<open>The totals of the sessions are the totals of their cart events.\<close>

lemma collected_totals:
  "sum_list (map se_nCartAdd (map collectSessionEvents docs))
     = sum_list (map (\<lambda>e. orElse (ev_add e) 0) (concat (map se_carts (map collectSessionEvents docs))))"
  "sum_list (map se_nCartRemove (map collectSessionEvents docs))
     = sum_list (map (\<lambda>e. orElse (ev_remove e) 0) (concat (map se_carts (map collectSessionEvents docs))))"
  by (simp_all add: sum_list_map_concat comp_def nCartAdd_collect nCartRemove_collect)

lemma clampValue_id: "0 \<le> v \<Longrightarrow> v \<le> 1 \<Longrightarrow> clampValue v 0 1 = v"
  by (simp add: clampValue_def)

text \<open>For collected sessions the clamps of the service are never active.\<close>

lemma collected_leak_row:
  assumes "r \<in> set (lk_items (leakAnalytics (map collectSessionEvents docs) meta))"
  shows "0 \<le> lr_removes r \<and> lr_removes r \<le> lr_adds r \<and>
         lr_leak r = (if lr_adds r > 0 then of_int (lr_removes r) / of_int (lr_adds r) else 0)"
proof -
  let ?ss = "map collectSessionEvents docs"
  obtain k where r: "r = leakRow (leakLoop ?ss) k"
    using assms by (auto simp: leakAnalytics_def Let_def)
  have bal: "0 \<le> lr_removes r \<and> lr_removes r \<le> lr_adds r"
    unfolding r leakRow_adds leakRow_removes
    using collected_balance [of "\<lambda>i. i = k" docs] by simp
  have "lr_leak r = (if lr_adds r > 0
                     then clampValue (of_int (lr_removes r) / of_int (lr_adds r)) 0 1 else 0)"
    by (simp add: r leakRow_def Let_def)
  moreover have "clampValue (real_of_int (lr_removes r) / real_of_int (lr_adds r)) 0 1
                 = real_of_int (lr_removes r) / real_of_int (lr_adds r)" if "lr_adds r > 0"
    using bal that by (intro clampValue_id) simp_all
  ultimately show ?thesis using bal by simp
qed

lemma collected_leak_overall:
  "lk_overall (leakAnalytics (map collectSessionEvents docs) meta)
     = (if sum_list (map se_nCartAdd (map collectSessionEvents docs)) > 0
        then of_int (sum_list (map se_nCartRemove (map collectSessionEvents docs)))
             / of_int (sum_list (map se_nCartAdd (map collectSessionEvents docs)))
        else 0)"
proof -
  let ?ss = "map collectSessionEvents docs"
  have a: "tAdds (leakLoop ?ss) = sum_list (map se_nCartAdd ?ss)"
    and b: "tRem (leakLoop ?ss) = sum_list (map se_nCartRemove ?ss)"
    unfolding collected_totals by (simp_all add: leakLoop_def fold_leakStep_totals)
  have bal: "0 \<le> tRem (leakLoop ?ss) \<and> tRem (leakLoop ?ss) \<le> tAdds (leakLoop ?ss)"
    using collected_balance [of "\<lambda>i. True" docs]
    by (simp add: leakLoop_def fold_leakStep_totals)
  have "clampValue (real_of_int (tRem (leakLoop ?ss)) / real_of_int (tAdds (leakLoop ?ss))) 0 1
        = real_of_int (tRem (leakLoop ?ss)) / real_of_int (tAdds (leakLoop ?ss))"
    if "tAdds (leakLoop ?ss) > 0"
    using bal that by (intro clampValue_id) simp_all
  then show ?thesis
    unfolding a [symmetric] b [symmetric] by (simp add: leakAnalytics_def Let_def)
qed

text \<open>Rebuilding sorted rows from their own adds and removes gives the rows back.\<close>

lemma rp_leakItems_same:
  assumes "\<And>r. r \<in> set rows \<Longrightarrow>
             lr_leak r = (if lr_adds r > 0 then of_int (lr_removes r) / of_int (lr_adds r) else 0)"
    and "sorted (map (\<lambda>r. (- lr_leak r, - lr_removes r)) rows)"
  shows "rp_leakItems rows (map lr_adds rows) (map lr_removes rows) = rows"
proof -
  have "map (\<lambda>idx. let r = rows ! idx;
                       adds = nth_or0 (map lr_adds rows) idx;
                       removes = nth_or0 (map lr_removes rows) idx
                   in \<lparr> lr_item = lr_item r, lr_adds = adds, lr_removes = removes,
                        lr_leak = (if adds > 0 then of_int removes / of_int adds else 0) \<rparr>)
            [0..<length rows] = rows"
  proof (rule nth_equalityI)
    fix i
    assume "i < length (map (\<lambda>idx. let r = rows ! idx;
                       adds = nth_or0 (map lr_adds rows) idx;
                       removes = nth_or0 (map lr_removes rows) idx
                   in \<lparr> lr_item = lr_item r, lr_adds = adds, lr_removes = removes,
                        lr_leak = (if adds > 0 then of_int removes / of_int adds else 0) \<rparr>)
            [0..<length rows])"
    then have i: "i < length rows" by simp
    have leq: "lr_leak (rows ! i) = (if lr_adds (rows ! i) > 0
                 then of_int (lr_removes (rows ! i)) / of_int (lr_adds (rows ! i)) else 0)"
      using assms(1) i by simp
    show "map (\<lambda>idx. let r = rows ! idx;
                       adds = nth_or0 (map lr_adds rows) idx;
                       removes = nth_or0 (map lr_removes rows) idx
                   in \<lparr> lr_item = lr_item r, lr_adds = adds, lr_removes = removes,
                        lr_leak = (if adds > 0 then of_int removes / of_int adds else 0) \<rparr>)
            [0..<length rows] ! i = rows ! i"
      using i leq by (auto simp add: nth_or0_def Let_def intro!: leak_row.equality)
  qed simp
  then show ?thesis
    unfolding rp_leakItems_def using assms(2) by (simp add: sort_key_id_if_sorted)
qed

lemma rp_categoryInteractions_same:
  assumes "\<And>c. c \<in> set cats \<Longrightarrow> c_total c = c_views c + c_wish c + c_carts c"
    and "sorted (map (\<lambda>c. - c_total c) cats)"
  shows "rp_categoryInteractions 1 cats (map c_carts cats) = cats"
proof -
  have "map (\<lambda>idx. let c = cats ! idx;
                       views = js_round (of_int (c_views c) * 1);
                       wish = js_round (of_int (c_wish c) * 1);
                       carts = nth_or0 (map c_carts cats) idx
                   in c\<lparr> c_views := views, c_wish := wish, c_carts := carts,
                         c_total := views + wish + carts \<rparr>)
            [0..<length cats] = cats"
  proof (rule nth_equalityI)
    fix i
    assume "i < length (map (\<lambda>idx. let c = cats ! idx;
                       views = js_round (of_int (c_views c) * 1);
                       wish = js_round (of_int (c_wish c) * 1);
                       carts = nth_or0 (map c_carts cats) idx
                   in c\<lparr> c_views := views, c_wish := wish, c_carts := carts,
                         c_total := views + wish + carts \<rparr>)
            [0..<length cats])"
    then have i: "i < length cats" by simp
    have teq: "c_total (cats ! i) = c_views (cats ! i) + c_wish (cats ! i) + c_carts (cats ! i)"
      using assms(1) i by simp
    show "map (\<lambda>idx. let c = cats ! idx;
                       views = js_round (of_int (c_views c) * 1);
                       wish = js_round (of_int (c_wish c) * 1);
                       carts = nth_or0 (map c_carts cats) idx
                   in c\<lparr> c_views := views, c_wish := wish, c_carts := carts,
                         c_total := views + wish + carts \<rparr>)
            [0..<length cats] ! i = cats ! i"
      using i teq by (auto simp add: nth_or0_def Let_def js_round_int intro!: cat_row.equality)
  qed simp
  then show ?thesis
    unfolding rp_categoryInteractions_def using assms(2) by (simp add: sort_key_id_if_sorted)
qed

text \<open>Every category row of the service is the sum of its three counters, none negative.\<close>

lemma set_update_subset: "set (AList.update k v m) \<subseteq> insert (k, v) (set m)"
  by (induction m) auto

lemma bump_ok:
  assumes "\<And>k c. (k, c) \<in> set m \<Longrightarrow> catRowOk c"
  shows "(k, c) \<in> set (bump ck m) \<Longrightarrow> catRowOk c"
proof -
  assume mem: "(k, c) \<in> set (bump ck m)"
  let ?zero = "\<lparr> c_category = fst ck, c_views = 0, c_carts = 0, c_wish = 0, c_total = 0 \<rparr>"
  have entry: "catRowOk (orElse (map_of m (fst ck)) ?zero)"
  proof (cases "map_of m (fst ck)")
    case None
    then show ?thesis by (simp add: orElse_def catRowOk_def)
  next
    case (Some e)
    then have "(fst ck, e) \<in> set m" by (rule map_of_SomeD)
    then show ?thesis using assms Some by (simp add: orElse_def)
  qed
  from mem set_update_subset have "(k, c) \<in> set m \<or>
     c = (case snd ck of
            views \<Rightarrow> (orElse (map_of m (fst ck)) ?zero)\<lparr> c_views := c_views (orElse (map_of m (fst ck)) ?zero) + 1 \<rparr>
          | carts \<Rightarrow> (orElse (map_of m (fst ck)) ?zero)\<lparr> c_carts := c_carts (orElse (map_of m (fst ck)) ?zero) + 1 \<rparr>
          | wish \<Rightarrow> (orElse (map_of m (fst ck)) ?zero)\<lparr> c_wish := c_wish (orElse (map_of m (fst ck)) ?zero) + 1 \<rparr>)
         \<lparr> c_total := c_total (case snd ck of
            views \<Rightarrow> (orElse (map_of m (fst ck)) ?zero)\<lparr> c_views := c_views (orElse (map_of m (fst ck)) ?zero) + 1 \<rparr>
          | carts \<Rightarrow> (orElse (map_of m (fst ck)) ?zero)\<lparr> c_carts := c_carts (orElse (map_of m (fst ck)) ?zero) + 1 \<rparr>
          | wish \<Rightarrow> (orElse (map_of m (fst ck)) ?zero)\<lparr> c_wish := c_wish (orElse (map_of m (fst ck)) ?zero) + 1 \<rparr>) + 1 \<rparr>"
    unfolding bump_def Let_def by fastforce
  then show ?thesis
    using assms entry by (auto simp: catRowOk_def split: CatKey.splits)
qed

lemma fold_bump_ok:
  "(\<And>k c. (k, c) \<in> set m \<Longrightarrow> catRowOk c) \<Longrightarrow> (k, c) \<in> set (fold bump cks m) \<Longrightarrow> catRowOk c"
proof (induction cks arbitrary: m)
  case Nil
  then show ?case by simp
next
  case (Cons ck cks)
  show ?case
  proof (rule Cons.IH [of "bump ck m"])
    show "\<And>k c. (k, c) \<in> set (bump ck m) \<Longrightarrow> catRowOk c"
      using bump_ok [of m] Cons.prems(1) by blast
    show "(k, c) \<in> set (fold bump cks (bump ck m))" using Cons.prems(2) by simp
  qed
qed

lemma categoryInteractionsOf_ok:
  assumes "c \<in> set (categoryInteractionsOf ss meta)"
  shows "catRowOk c"
proof -
  have "c \<in> set (map snd (byCategory ss meta))"
    using assms set_take_subset [of 20 "sort_key (\<lambda>c. - c_total c) (map snd (byCategory ss meta))"]
    by (auto simp: categoryInteractionsOf_def)
  then obtain k where "(k, c) \<in> set (fold bump (concat (map (sessionBumps meta) ss)) [])"
    by (auto simp: byCategory_def)
  then show ?thesis by (rule fold_bump_ok [rotated]) simp
qed

lemma categoryInteractionsOf_sorted:
  "sorted (map (\<lambda>c. - c_total c) (categoryInteractionsOf ss meta))"
  unfolding categoryInteractionsOf_def take_map [symmetric]
  by (rule sorted_wrt_take) simp

lemma leak_items_sorted:
  "sorted (map (\<lambda>r. (- lr_leak r, - lr_removes r)) (lk_items (leakAnalytics ss meta)))"
  by (simp add: leakAnalytics_def Let_def)

lemma clamp_one: "clamp 1 0 1 = 1"
  by (simp add: clamp_def)

lemma sum_map_of_int: "sum_list (map (\<lambda>x. real_of_int (f x)) xs) = real_of_int (sum_list (map f xs))"
  by (induction xs) simp_all

text \<open>
  Claim C2. Take a bundle that \<open>computeAnalyticsFromDocs\<close> produced from at least one
  document, and a date range that contains the calendar date of every session of the
  bundle. Then \<open>reprojectForDateRange\<close> returns, and the bundle it returns is the original
  one except for three fields: the daily series keeps only the days inside the range, the
  flow links lose every link from a state to itself, and the category interactions are
  rebuilt from an apportionment of the cart adds. The session list, the leak rows and the
  overall leak, the transition counts and probabilities, the price samples, the price
  bands, the bundle supports and all other fields are unchanged. The category
  interactions are unchanged as well when the \<open>carts\<close> of the category rows of the
  bundle sum to the cart adds of its sessions.
\<close>

theorem reproject_full_range:
  assumes data: "data = computeAnalyticsFromDocs trackingDocs listings productCategories"
    and docs: "trackingDocs \<noteq> []"
    and range: "\<forall>s \<in> set (sessions data). inRange fromDate toDate (dateOf (s_ts s))"
  shows "\<exists>d. reprojectForDateRange data fromDate toDate = Inr d \<and>
           d = data
             \<lparr> daily := (daily data)
                  \<lparr> series := filter (\<lambda>r. inRange fromDate toDate (d_date r)) (series (daily data)) \<rparr>,
               sankey := (sankey data)
                  \<lparr> sk_links := filter (\<lambda>l. l_source l \<noteq> l_target l) (sk_links (sankey data)) \<rparr>,
               categoryInteractions := categoryInteractions d \<rparr> \<and>
           (sum_list (map c_carts (categoryInteractions data)) = sum_list (map s_nCartAdd (sessions data))
              \<longrightarrow> categoryInteractions d = categoryInteractions data)"
proof -
  let ?ss = "map collectSessionEvents trackingDocs"
  let ?meta = "buildItemMeta listings (buildCategoryMap productCategories)"
  have bdl: "data = bundleOf ?ss ?meta"
    by (simp add: data computeAnalyticsFromDocs_bundleOf)
  have all: "rp_sessions data fromDate toDate = sessions data"
    using range by (simp add: rp_sessions_def)
  have ne: "rp_sessions data fromDate toDate \<noteq> []"
    using docs unfolding all by (simp add: bdl sessions_bundleOf)
  have ratio: "rp_ratio data (sessions data) = 1"
    using ne unfolding all by (simp add: rp_ratio_def clamp_one)
  have tA: "sum_list (map s_nCartAdd (sessions data)) = sum_list (map se_nCartAdd ?ss)"
    and tR: "sum_list (map s_nCartRemove (sessions data)) = sum_list (map se_nCartRemove ?ss)"
    by (simp_all add: bdl sessions_bundleOf comp_def sessionRow_def)
  let ?items = "lk_items (leakAnalytics ?ss ?meta)"
  let ?cats = "categoryInteractionsOf ?ss ?meta"
  have items: "lk_items (leak data) = ?items" and cats: "categoryInteractions data = ?cats"
    by (simp_all add: bdl leak_bundleOf categoryInteractions_bundleOf)
  have row: "0 \<le> lr_removes r \<and> lr_removes r \<le> lr_adds r \<and>
             lr_leak r = (if lr_adds r > 0 then of_int (lr_removes r) / of_int (lr_adds r) else 0)"
    if "r \<in> set ?items" for r
    using that by (rule collected_leak_row)
  have sumA: "sum_list (map lr_adds ?items) = sum_list (map s_nCartAdd (sessions data))"
    unfolding tA collected_totals(1) by (rule leak_sum_adds)
  have sumR: "sum_list (map lr_removes ?items) = sum_list (map s_nCartRemove (sessions data))"
    unfolding tR collected_totals(2) by (rule leak_sum_removes)
  have nnA: "0 \<le> w" if "w \<in> set (map lr_adds ?items)" for w
    using that row by fastforce
  have nnR: "0 \<le> w" if "w \<in> set (map lr_removes ?items)" for w
    using that row by fastforce
  have adds: "distributeToTotal (sum_list (map s_nCartAdd (sessions data)))
                (map (\<lambda>r. real_of_int (lr_adds r)) ?items) = Inr (map lr_adds ?items)"
    using distributeToTotal_same [of "map lr_adds ?items"] nnA unfolding sumA by (simp add: comp_def)
  have rems: "distributeToTotal (sum_list (map s_nCartRemove (sessions data)))
                (map (\<lambda>r. real_of_int (lr_removes r)) ?items) = Inr (map lr_removes ?items)"
    using distributeToTotal_same [of "map lr_removes ?items"] nnR unfolding sumR by (simp add: comp_def)
  obtain d where ret: "reprojectForDateRange data fromDate toDate = Inr d"
    using engine_reproject_returns ne unfolding data by blast
  from reproject_nonempty [OF ne ret]
  obtain cartsAlloc where
    c: "distributeToTotal (sum_list (map s_nCartAdd (sessions data)))
          (map (\<lambda>c. real_of_int (c_carts c)) ?cats) = Inr cartsAlloc"
    and d: "d = data
       \<lparr> sessions := sessions data,
         daily := (daily data)\<lparr> series :=
            filter (\<lambda>r. inRange fromDate toDate (d_date r)) (series (daily data)) \<rparr>,
         leak := \<lparr> lk_overall =
                     (if sum_list (map s_nCartAdd (sessions data)) > 0
                      then of_int (sum_list (map s_nCartRemove (sessions data)))
                           / of_int (sum_list (map s_nCartAdd (sessions data)))
                      else 0),
                   lk_items = rp_leakItems ?items (map lr_adds ?items) (map lr_removes ?items) \<rparr>,
         categoryInteractions := rp_categoryInteractions 1 ?cats cartsAlloc,
         priceRangeData := rp_priceRangeData 1 (priceRangeData data),
         priceBands := rp_priceBands 1 (priceBands data),
         transitions :=
           \<lparr> t_states = t_states (transitions data),
             t_counts = rp_scaledCounts 1 (t_counts (transitions data)),
             t_probs = rowProbs (rp_scaledCounts 1 (t_counts (transitions data))) \<rparr>,
         sankey :=
           \<lparr> sk_nodes = sk_nodes (sankey data),
             sk_links = rp_links (rp_scaledCounts 1 (t_counts (transitions data))) \<rparr>,
         recos := recos data,
         frequentBundles := rp_frequentBundles 1 (frequentBundles data) \<rparr>"
    unfolding all ratio items cats adds rems by auto
  have leak_same: "\<lparr> lk_overall =
                     (if sum_list (map s_nCartAdd (sessions data)) > 0
                      then of_int (sum_list (map s_nCartRemove (sessions data)))
                           / of_int (sum_list (map s_nCartAdd (sessions data)))
                      else 0),
                   lk_items = rp_leakItems ?items (map lr_adds ?items) (map lr_removes ?items) \<rparr>
                  = leak data"
  proof -
    have "rp_leakItems ?items (map lr_adds ?items) (map lr_removes ?items) = ?items"
      using row by (intro rp_leakItems_same leak_items_sorted) simp
    then show ?thesis
      unfolding tA tR by (simp add: bdl leak_bundleOf collected_leak_overall)
  qed
  have trans_same: "\<lparr> t_states = t_states (transitions data),
             t_counts = rp_scaledCounts 1 (t_counts (transitions data)),
             t_probs = rowProbs (rp_scaledCounts 1 (t_counts (transitions data))) \<rparr> = transitions data"
    by (simp add: rp_scaledCounts_one bdl transitions_bundleOf)
  have links: "rp_links (rp_scaledCounts 1 (t_counts (transitions data)))
               = filter (\<lambda>l. l_source l \<noteq> l_target l) (sk_links (sankey data))"
    by (simp add: rp_scaledCounts_one bdl transitions_bundleOf sankey_bundleOf
        rp_links_filter square5_transitionCounts)
  have d': "d = data
             \<lparr> daily := (daily data)
                  \<lparr> series := filter (\<lambda>r. inRange fromDate toDate (d_date r)) (series (daily data)) \<rparr>,
               sankey := (sankey data)
                  \<lparr> sk_links := filter (\<lambda>l. l_source l \<noteq> l_target l) (sk_links (sankey data)) \<rparr>,
               categoryInteractions := rp_categoryInteractions 1 ?cats cartsAlloc \<rparr>"
    unfolding d leak_same trans_same links rp_priceRangeData_one rp_priceBands_one rp_frequentBundles_one
    by simp
  have same: "categoryInteractions d = categoryInteractions data"
    if sum: "sum_list (map c_carts (categoryInteractions data)) = sum_list (map s_nCartAdd (sessions data))"
  proof -
    have nnC: "0 \<le> w" if "w \<in> set (map c_carts ?cats)" for w
      using that categoryInteractionsOf_ok [of _ ?ss ?meta] by (fastforce simp: catRowOk_def)
    have sumC: "sum_list (map c_carts ?cats) = sum_list (map s_nCartAdd (sessions data))"
      using sum by (simp add: cats)
    have "distributeToTotal (sum_list (map s_nCartAdd (sessions data)))
            (map (\<lambda>c. real_of_int (c_carts c)) ?cats) = Inr (map c_carts ?cats)"
      using distributeToTotal_same [of "map c_carts ?cats"] nnC unfolding sumC by (simp add: comp_def)
    then have "cartsAlloc = map c_carts ?cats" using c by simp
    moreover have "rp_categoryInteractions 1 ?cats (map c_carts ?cats) = ?cats"
      using categoryInteractionsOf_ok [of _ ?ss ?meta]
      by (intro rp_categoryInteractions_same categoryInteractionsOf_sorted) (simp add: catRowOk_def)
    ultimately show ?thesis by (simp add: d' cats)
  qed
  show ?thesis
    using ret same by (intro exI [of _ d]) (simp add: d')
qed

lemma sample_whole_range:
  "rp_sessions sampleBundle ''2024-10-01'' ''2024-10-02'' = sessions sampleBundle"
  unfolding rp_sessions_def sample_sessions by code_simp

lemma sample_links:
  "sk_links (sankey sampleBundle) =
     [\<lparr> l_source = 0, l_target = 0, l_value = 2 \<rparr>, \<lparr> l_source = 0, l_target = 1, l_value = 1 \<rparr>,
      \<lparr> l_source = 1, l_target = 1, l_value = 1 \<rparr>, \<lparr> l_source = 2, l_target = 0, l_value = 1 \<rparr>]"
  unfolding sampleBundle_bundleOf sankey_bundleOf sankey_t.simps by code_simp

theorem reproject_full_range_witness:
  "sampleDocs \<noteq> [] \<and>
   list_all (\<lambda>s. inRange ''2024-10-01'' ''2024-10-02'' (dateOf (s_ts s))) (sessions sampleBundle) \<and>
   sum_list (map c_carts (categoryInteractions sampleBundle)) = 4 \<and>
   sum_list (map s_nCartAdd (sessions sampleBundle)) = 4 \<and>
   (\<exists>d. reprojectForDateRange sampleBundle ''2024-10-01'' ''2024-10-02'' = Inr d \<and>
        d = sampleBundle
          \<lparr> daily := (daily sampleBundle)
               \<lparr> series := filter (\<lambda>r. inRange ''2024-10-01'' ''2024-10-02'' (d_date r))
                             (series (daily sampleBundle)) \<rparr>,
            sankey := (sankey sampleBundle)
               \<lparr> sk_links := [\<lparr> l_source = 0, l_target = 1, l_value = 1 \<rparr>,
                              \<lparr> l_source = 2, l_target = 0, l_value = 1 \<rparr>] \<rparr> \<rparr> \<and>
        categoryInteractions d = categoryInteractions sampleBundle)"
proof -
  have docs: "sampleDocs \<noteq> []" by (simp add: sampleDocs_def)
  have range: "list_all (\<lambda>s. inRange ''2024-10-01'' ''2024-10-02'' (dateOf (s_ts s)))
                 (sessions sampleBundle)"
    unfolding sample_sessions by code_simp
  have cs: "sum_list (map c_carts (categoryInteractions sampleBundle)) = 4"
    by (simp add: sample_categoryInteractions)
  have ss: "sum_list (map s_nCartAdd (sessions sampleBundle)) = 4"
    by (simp add: sample_sessions)
  from reproject_full_range [OF sampleBundle_def docs, of "''2024-10-01''" "''2024-10-02''"] range
  obtain d where ret: "reprojectForDateRange sampleBundle ''2024-10-01'' ''2024-10-02'' = Inr d"
    and d: "d = sampleBundle
          \<lparr> daily := (daily sampleBundle)
               \<lparr> series := filter (\<lambda>r. inRange ''2024-10-01'' ''2024-10-02'' (d_date r))
                             (series (daily sampleBundle)) \<rparr>,
            sankey := (sankey sampleBundle)
               \<lparr> sk_links := filter (\<lambda>l. l_source l \<noteq> l_target l) (sk_links (sankey sampleBundle)) \<rparr>,
            categoryInteractions := categoryInteractions d \<rparr>"
    and same: "categoryInteractions d = categoryInteractions sampleBundle"
    unfolding list_all_iff cs ss by blast
  have "filter (\<lambda>l. l_source l \<noteq> l_target l) (sk_links (sankey sampleBundle)) =
          [\<lparr> l_source = 0, l_target = 1, l_value = 1 \<rparr>, \<lparr> l_source = 2, l_target = 0, l_value = 1 \<rparr>]"
    unfolding sample_links by simp
  with d same have "d = sampleBundle
          \<lparr> daily := (daily sampleBundle)
               \<lparr> series := filter (\<lambda>r. inRange ''2024-10-01'' ''2024-10-02'' (d_date r))
                             (series (daily sampleBundle)) \<rparr>,
            sankey := (sankey sampleBundle)
               \<lparr> sk_links := [\<lparr> l_source = 0, l_target = 1, l_value = 1 \<rparr>,
                              \<lparr> l_source = 2, l_target = 0, l_value = 1 \<rparr>] \<rparr> \<rparr>"
    by simp
  with docs range cs ss ret same show ?thesis by blast
qed

theorem reproject_full_range_counterexample:
  "rp_sessions sampleBundle ''2024-10-01'' ''2024-10-02'' = sessions sampleBundle \<and>
   sk_links (sankey sampleBundle) =
     [\<lparr> l_source = 0, l_target = 0, l_value = 2 \<rparr>, \<lparr> l_source = 0, l_target = 1, l_value = 1 \<rparr>,
      \<lparr> l_source = 1, l_target = 1, l_value = 1 \<rparr>, \<lparr> l_source = 2, l_target = 0, l_value = 1 \<rparr>] \<and>
   (\<exists>d. reprojectForDateRange sampleBundle ''2024-10-01'' ''2024-10-02'' = Inr d \<and>
        sk_links (sankey d) =
          [\<lparr> l_source = 0, l_target = 1, l_value = 1 \<rparr>, \<lparr> l_source = 2, l_target = 0, l_value = 1 \<rparr>])"
proof -
  let ?ss = "rp_sessions sampleBundle ''2024-10-01'' ''2024-10-02''"
  have ne: "?ss \<noteq> []" by (simp add: sample_whole_range sample_sessions)
  have ratio: "rp_ratio sampleBundle ?ss = 1"
    unfolding rp_ratio_def sample_whole_range sample_sessions by (simp add: clamp_def)
  obtain d where ret: "reprojectForDateRange sampleBundle ''2024-10-01'' ''2024-10-02'' = Inr d"
    using engine_reproject_returns [of sampleDocs sampleListings sampleCategories] ne
    unfolding sampleBundle_def by blast
  from reproject_nonempty [OF ne ret]
  have "sk_links (sankey d) = rp_links (rp_scaledCounts 1 (t_counts (transitions sampleBundle)))"
    by (auto simp: ratio)
  also have "\<dots> = [\<lparr> l_source = 0, l_target = 1, l_value = 1 \<rparr>,
                   \<lparr> l_source = 2, l_target = 0, l_value = 1 \<rparr>]"
    unfolding sample_counts by code_simp
  finally show ?thesis using ret sample_whole_range sample_links by blast
qed

end
